theory Spec2Isabelle
  imports Main
begin

section \<open>The TIFF astronomical metadata reader\<close>

text \<open>
  A shallow embedding of \<^verbatim>\<open>tiff_astro_reader.py\<close>: the class \<^verbatim>\<open>TIFFAstroReader\<close>, which
  walks the root IFD of a TIFF file to the EXIF sub-directory, looks there for tag 37500
  of type UNDEFINED, decodes its bytes to text and hands the text to \<^verbatim>\<open>json.loads\<close>.

  A Python \<^verbatim>\<open>bytes\<close> object is a list of 8-bit values, here a list of \<^typ>\<open>char\<close>; the
  integer a byte stands for is \<open>of_char\<close> of it. Python integers are unbounded; the ones
  this program computes are never negative, so they are \<^typ>\<open>nat\<close>.
\<close>

subsection \<open>The binary file object\<close>

type_synonym bytes = "char list"

text \<open>
  A file opened with mode \<^verbatim>\<open>'rb'\<close>: its contents and the cursor. \<^verbatim>\<open>f.read(n)\<close> returns the
  at most \<open>n\<close> bytes between the cursor and the end of the file and moves the cursor behind
  them; \<^verbatim>\<open>f.seek(offset)\<close> sets the cursor (also behind the end of the file, where a read
  returns \<^verbatim>\<open>b''\<close>); \<^verbatim>\<open>f.tell()\<close> returns it.
\<close>

record binary_file =
  contents :: bytes
  pos :: nat

definition f_read :: "nat \<Rightarrow> binary_file \<Rightarrow> bytes \<times> binary_file" where
  "f_read n f =
     (let data = take n (drop (pos f) (contents f))
      in (data, f\<lparr>pos := pos f + length data\<rparr>))"

definition f_seek :: "nat \<Rightarrow> binary_file \<Rightarrow> binary_file" where
  "f_seek offset f = f\<lparr>pos := offset\<rparr>"

definition f_tell :: "binary_file \<Rightarrow> nat" where
  "f_tell f = pos f"

subsection \<open>The reader object and its integer reads\<close>

record TIFFAstroReader =
  filename :: string
  is_little_endian :: bool

definition init_reader :: "string \<Rightarrow> TIFFAstroReader" where
  "init_reader name = \<lparr>filename = name, is_little_endian = True\<rparr>"

text \<open>
  \<^verbatim>\<open>struct.unpack('<H', data)[0]\<close> and its siblings \<^verbatim>\<open>'>H'\<close>, \<^verbatim>\<open>'<I'\<close>, \<^verbatim>\<open>'>I'\<close>: the
  unsigned integer whose base-256 digits are the bytes of \<open>data\<close>, least significant first
  for \<^verbatim>\<open><\<close> and most significant first for \<^verbatim>\<open>>\<close>. Python raises \<^verbatim>\<open>struct.error\<close> when
  \<open>data\<close> has not the length of the format; both callers test the length first.
\<close>

fun le_uint :: "bytes \<Rightarrow> nat" where
  "le_uint [] = 0"
| "le_uint (b # bs) = of_char b + 256 * le_uint bs"

definition struct_unpack :: "bool \<Rightarrow> bytes \<Rightarrow> nat" where
  "struct_unpack little data = (if little then le_uint data else le_uint (rev data))"

definition read_uint16 :: "TIFFAstroReader \<Rightarrow> binary_file \<Rightarrow> nat \<times> binary_file" where
  "read_uint16 self f =
     (let (data, f') = f_read 2 f
      in if length data \<noteq> 2 then (0, f')
         else (struct_unpack (is_little_endian self) data, f'))"

definition read_uint32 :: "TIFFAstroReader \<Rightarrow> binary_file \<Rightarrow> nat \<times> binary_file" where
  "read_uint32 self f =
     (let (data, f') = f_read 4 f
      in if length data \<noteq> 4 then (0, f')
         else (struct_unpack (is_little_endian self) data, f'))"

definition read_data_at_offset ::
  "TIFFAstroReader \<Rightarrow> binary_file \<Rightarrow> nat \<Rightarrow> nat \<Rightarrow> bytes \<times> binary_file" where
  "read_data_at_offset self f offset count =
     (let current_pos = f_tell f;
          f1 = f_seek offset f;
          (data, f2) = f_read count f1;
          f3 = f_seek current_pos f2
      in (data, f3))"

subsection \<open>Decoding the payload bytes to text\<close>

text \<open>
  The loop of \<^verbatim>\<open>scan_exif_for_origin_data\<close> over the bytes of the payload: it leaves at a
  zero byte, appends a byte between 32 and 126, and goes on to the next byte otherwise.
  \<^verbatim>\<open>chr(byte)\<close> of such a byte is the character with that code.
\<close>

definition chr :: "nat \<Rightarrow> char" where
  "chr n = char_of n"

fun decode_loop :: "string \<Rightarrow> bytes \<Rightarrow> string" where
  "decode_loop text [] = text"
| "decode_loop text (byte # data) =
     (if of_char byte = (0::nat) then text
      else if (32::nat) \<le> of_char byte \<and> of_char byte \<le> (126::nat)
        then decode_loop (text @ [chr (of_char byte)]) data
      else decode_loop text data)"

definition decode_text :: "bytes \<Rightarrow> string" where
  "decode_text data = decode_loop [] data"

text \<open>The printable ASCII range, 0x20 to 0x7E.\<close>

definition printable :: "char \<Rightarrow> bool" where
  "printable c = ((32::nat) \<le> of_char c \<and> of_char c \<le> (126::nat))"

definition is_null :: "char \<Rightarrow> bool" where
  "is_null c = (of_char c = (0::nat))"

subsection \<open>The standard library's JSON decoder\<close>

text \<open>
  \<^verbatim>\<open>json.loads\<close> belongs to Python, not to this program; what follows is its decoder as
  the library documents and implements it (\<^verbatim>\<open>json.decoder\<close>, \<^verbatim>\<open>json.scanner\<close>), on the
  text this program hands it, which holds printable ASCII only. A decoded string is a list
  of Unicode code points, since \<^verbatim>\<open>\uXXXX\<close> escapes reach beyond one byte. An integer
  literal becomes an \<^typ>\<open>int\<close>. A literal with a fraction or an exponent becomes a Python
  float; floating point is not modelled, the literal itself is kept. A JSON object
  becomes a \<^verbatim>\<open>dict\<close>: the pairs in insertion order, a repeated key keeping its place and
  taking the later value. Every syntax error is the one exception \<^verbatim>\<open>JSONDecodeError\<close>.
  The limits of the interpreter (recursion depth, memory, the number of digits of an
  integer literal) are outside this model.
\<close>

datatype py_exception = IOError | JSONDecodeError | StructError

type_synonym pystr = "nat list"

datatype json =
    JNull
  | JBool bool
  | JInt int
  | JFloat string
  | JNaN
  | JInfinity
  | JNegInfinity
  | JString pystr
  | JArray "json list"
  | JObject "(pystr \<times> json) list"

text \<open>The white space the decoder skips, and the digits.\<close>

definition is_ws :: "char \<Rightarrow> bool" where
  "is_ws c = (c = CHR '' '' \<or> c = CHR 0x09 \<or> c = CHR 0x0A \<or> c = CHR 0x0D)"

definition skip_ws :: "string \<Rightarrow> string" where
  "skip_ws s = dropWhile is_ws s"

definition is_digit :: "char \<Rightarrow> bool" where
  "is_digit c = ((48::nat) \<le> of_char c \<and> of_char c \<le> (57::nat))"

text \<open>
  \<^verbatim>\<open>scanstring\<close>, called behind the opening quotation mark: it collects characters up to
  the closing one, fails on a control character and at the end of the text, and decodes
  the escapes, a \<^verbatim>\<open>\uXXXX\<close> pair of surrogates into one code point.
\<close>

definition hex_value :: "char \<Rightarrow> nat option" where
  "hex_value c =
     (let n = of_char c :: nat in
      if 48 \<le> n \<and> n \<le> 57 then Some (n - 48)
      else if 65 \<le> n \<and> n \<le> 70 then Some (n - 55)
      else if 97 \<le> n \<and> n \<le> 102 then Some (n - 87)
      else None)"

definition decode_uXXXX :: "string \<Rightarrow> nat option" where
  "decode_uXXXX s =
     (case map hex_value (take 4 s) of
        [Some a, Some b, Some c, Some d] \<Rightarrow> Some (((a * 16 + b) * 16 + c) * 16 + d)
      | _ \<Rightarrow> None)"

definition backslash :: "char \<Rightarrow> nat option" where
  "backslash esc =
     (if esc = CHR 0x22 then Some 0x22
      else if esc = CHR 0x5C then Some 0x5C
      else if esc = CHR ''/'' then Some 0x2F
      else if esc = CHR ''b'' then Some 0x08
      else if esc = CHR ''f'' then Some 0x0C
      else if esc = CHR ''n'' then Some 0x0A
      else if esc = CHR ''r'' then Some 0x0D
      else if esc = CHR ''t'' then Some 0x09
      else None)"

fun scanstring :: "pystr \<Rightarrow> string \<Rightarrow> (pystr \<times> string) option" where
  "scanstring chunks [] = None"
| "scanstring chunks (c # s) =
     (if c = CHR 0x22 then Some (chunks, s)
      else if of_char c < (32::nat) then None
      else if c \<noteq> CHR 0x5C then scanstring (chunks @ [of_char c]) s
      else (case s of
              [] \<Rightarrow> None
            | esc # s1 \<Rightarrow>
                if esc \<noteq> CHR ''u'' then
                  (case backslash esc of
                     None \<Rightarrow> None
                   | Some ch \<Rightarrow> scanstring (chunks @ [ch]) s1)
                else
                  (case decode_uXXXX s1 of
                     None \<Rightarrow> None
                   | Some uni \<Rightarrow>
                       if 0xD800 \<le> uni \<and> uni \<le> 0xDBFF \<and> take 2 (drop 4 s1) = [CHR 0x5C, CHR ''u'']
                       then (case decode_uXXXX (drop 6 s1) of
                               None \<Rightarrow> None
                             | Some uni2 \<Rightarrow>
                                 if 0xDC00 \<le> uni2 \<and> uni2 \<le> 0xDFFF
                                 then scanstring
                                        (chunks @ [0x10000 + ((uni - 0xD800) * 1024 + (uni2 - 0xDC00))])
                                        (drop 10 s1)
                                 else scanstring (chunks @ [uni]) (drop 4 s1))
                       else scanstring (chunks @ [uni]) (drop 4 s1))))"

lemma scanstring_shorter:
  "scanstring chunks s = Some (str, r) \<Longrightarrow> length r < length s"
proof (induction chunks s rule: scanstring.induct)
  case (1 chunks)
  then show ?case by simp
next
  case (2 chunks c s)
  show ?case
  proof (cases "c = CHR 0x22 \<or> of_char c < (32::nat) \<or> c \<noteq> CHR 0x5C")
    case True
    with 2 show ?thesis by (auto split: if_splits)
  next
    case False
    then have c: "c \<noteq> CHR 0x22" "\<not> of_char c < (32::nat)" "c = CHR 0x5C" by auto
    show ?thesis
    proof (cases s)
      case Nil
      with 2 c show ?thesis by simp
    next
      case (Cons esc s1)
      show ?thesis
      proof (cases "esc = CHR ''u''")
        case False
        from "2.prems" c Cons False obtain ch where ch: "backslash esc = Some ch"
          and rec: "scanstring (chunks @ [ch]) s1 = Some (str, r)"
          by (auto split: option.splits)
        from "2.IH"(2) c Cons False ch rec have "length r < length s1" by blast
        with Cons show ?thesis by simp
      next
        case True
        from "2.prems" c Cons True obtain uni where uni: "decode_uXXXX s1 = Some uni"
          by (auto split: option.splits)
        show ?thesis
        proof (cases "0xD800 \<le> uni \<and> uni \<le> 0xDBFF \<and> take 2 (drop 4 s1) = [CHR 0x5C, CHR ''u'']")
          case False
          with "2.prems" c Cons True uni have rec: "scanstring (chunks @ [uni]) (drop 4 s1) = Some (str, r)"
            by (auto split: if_splits)
          from "2.IH"(5) c Cons True uni False rec
          have "length r < length (drop 4 s1)" by blast
          with Cons show ?thesis by simp
        next
          case sur: True
          from "2.prems" c Cons True uni sur obtain uni2 where uni2: "decode_uXXXX (drop 6 s1) = Some uni2"
            by (auto split: option.splits)
          show ?thesis
          proof (cases "0xDC00 \<le> uni2 \<and> uni2 \<le> 0xDFFF")
            case True
            with "2.prems" c Cons \<open>esc = CHR ''u''\<close> uni sur uni2
            have rec: "scanstring (chunks @ [0x10000 + ((uni - 0xD800) * 1024 + (uni2 - 0xDC00))]) (drop 10 s1) = Some (str, r)"
              by (auto split: if_splits)
            from "2.IH"(3) c Cons \<open>esc = CHR ''u''\<close> uni sur uni2 True rec
            have "length r < length (drop 10 s1)" by blast
            with Cons show ?thesis by simp
          next
            case False
            with "2.prems" c Cons \<open>esc = CHR ''u''\<close> uni sur uni2
            have rec: "scanstring (chunks @ [uni]) (drop 4 s1) = Some (str, r)"
              by (auto split: if_splits)
            from "2.IH"(4) c Cons \<open>esc = CHR ''u''\<close> uni sur uni2 False rec
            have "length r < length (drop 4 s1)" by blast
            with Cons show ?thesis by simp
          qed
        qed
      qed
    qed
  qed
qed

text \<open>
  The number pattern \<^verbatim>\<open>(-?(?:0|[1-9]\d*))(\.\d+)?([eE][-+]?\d+)?\<close>, matched at the start of
  the text: the integer part, the fraction and the exponent, each as long as it can be.
\<close>

fun digits_value :: "nat \<Rightarrow> string \<Rightarrow> nat" where
  "digits_value acc [] = acc"
| "digits_value acc (d # ds) = digits_value (10 * acc + (of_char d - 48)) ds"

definition int_part :: "string \<Rightarrow> string" where
  "int_part s = (if take 1 s = ''0'' then ''0'' else takeWhile is_digit s)"

definition frac_part :: "string \<Rightarrow> string" where
  "frac_part s =
     (if take 1 s = ''.'' \<and> takeWhile is_digit (drop 1 s) \<noteq> []
      then CHR ''.'' # takeWhile is_digit (drop 1 s) else [])"

definition exp_part :: "string \<Rightarrow> string" where
  "exp_part s =
     (let sgn = (if take 1 (drop 1 s) = ''-'' \<or> take 1 (drop 1 s) = ''+''
                 then take 1 (drop 1 s) else []);
          ds = takeWhile is_digit (drop (1 + length sgn) s)
      in if (take 1 s = ''e'' \<or> take 1 s = ''E'') \<and> ds \<noteq> [] then take 1 s @ sgn @ ds else [])"

definition match_number :: "string \<Rightarrow> (json \<times> string) option" where
  "match_number s =
     (let neg = (take 1 s = ''-'');
          s1 = (if neg then drop 1 s else s);
          integer = int_part s1;
          frac = frac_part (drop (length integer) s1);
          exp = exp_part (drop (length integer + length frac) s1);
          rest = drop (length integer + length frac + length exp) s1
      in if integer = [] then None
         else if frac \<noteq> [] \<or> exp \<noteq> []
           then Some (JFloat ((if neg then ''-'' else []) @ integer @ frac @ exp), rest)
         else Some (JInt (if neg then - int (digits_value 0 integer)
                          else int (digits_value 0 integer)), rest))"

text \<open>\<^verbatim>\<open>dict(pairs)\<close>: a key seen before keeps its place and takes the new value.\<close>

fun dict_set :: "('k \<times> 'v) list \<Rightarrow> 'k \<Rightarrow> 'v \<Rightarrow> ('k \<times> 'v) list" where
  "dict_set [] k v = [(k, v)]"
| "dict_set ((k', v') # d) k v = (if k' = k then (k, v) # d else (k', v') # dict_set d k v)"

definition dict :: "('k \<times> 'v) list \<Rightarrow> ('k \<times> 'v) list" where
  "dict pairs = foldl (\<lambda>d (k, v). dict_set d k v) [] pairs"

lemma length_skip_ws: "length (skip_ws s) \<le> length s"
  by (simp add: skip_ws_def length_dropWhile_le)

lemma length_drop_skip_ws: "length (drop n (skip_ws r)) \<le> length r"
  using length_skip_ws [of r] by simp

lemma length_skip_drop_skip: "length (skip_ws (drop n (skip_ws r))) \<le> length r"
  using length_skip_ws [of "drop n (skip_ws r)"] length_drop_skip_ws [of n r] by simp

lemma length_drop_skip_drop_skip: "length (drop m (skip_ws (drop n (skip_ws r)))) \<le> length r"
  using length_skip_drop_skip [of n r] by simp

text \<open>
  \<^verbatim>\<open>scan_once\<close> decodes one value at the start of the text and returns it with the rest of
  the text; \<^verbatim>\<open>JSONArray\<close> and \<^verbatim>\<open>JSONObject\<close> are the loops over the elements of an array
  and the members of an object, entered behind the first value's start and behind the first
  key's opening quotation mark.
\<close>

function scan_once :: "string \<Rightarrow> (json \<times> string) option"
  and JSONArray :: "json list \<Rightarrow> string \<Rightarrow> (json \<times> string) option"
  and JSONObject :: "(pystr \<times> json) list \<Rightarrow> string \<Rightarrow> (json \<times> string) option"
where
  "scan_once s =
     (case s of
        [] \<Rightarrow> None
      | nextchar # r \<Rightarrow>
          if nextchar = CHR 0x22 then
            (case scanstring [] r of
               None \<Rightarrow> None
             | Some (str, r') \<Rightarrow> Some (JString str, r'))
          else if nextchar = CHR ''{'' then
            (let r1 = skip_ws r in
             if take 1 r1 = ''}'' then Some (JObject [], drop 1 r1)
             else if take 1 r1 \<noteq> [CHR 0x22] then None
             else JSONObject [] (drop 1 r1))
          else if nextchar = CHR ''['' then
            (let r1 = skip_ws r in
             if take 1 r1 = '']'' then Some (JArray [], drop 1 r1)
             else JSONArray [] r1)
          else if take 4 s = ''null'' then Some (JNull, drop 4 s)
          else if take 4 s = ''true'' then Some (JBool True, drop 4 s)
          else if take 5 s = ''false'' then Some (JBool False, drop 5 s)
          else
            (case match_number s of
               Some m \<Rightarrow> Some m
             | None \<Rightarrow>
                 if take 3 s = ''NaN'' then Some (JNaN, drop 3 s)
                 else if take 8 s = ''Infinity'' then Some (JInfinity, drop 8 s)
                 else if take 9 s = ''-Infinity'' then Some (JNegInfinity, drop 9 s)
                 else None))"
| "JSONArray values s =
     (case scan_once s of
        None \<Rightarrow> None
      | Some (v, r) \<Rightarrow>
          if length r < length s then
            (let r1 = skip_ws r in
             if take 1 r1 = '']'' then Some (JArray (values @ [v]), drop 1 r1)
             else if take 1 r1 \<noteq> '','' then None
             else JSONArray (values @ [v]) (skip_ws (drop 1 r1)))
          else None)"
| "JSONObject pairs s =
     (case scanstring [] s of
        None \<Rightarrow> None
      | Some (key, r) \<Rightarrow>
          (let r1 = skip_ws r in
           if take 1 r1 \<noteq> '':'' then None
           else
             (let r2 = skip_ws (drop 1 r1) in
              case scan_once r2 of
                None \<Rightarrow> None
              | Some (v, r3) \<Rightarrow>
                  if length r3 < length r2 then
                    (let r4 = skip_ws r3 in
                     if take 1 r4 = ''}'' then Some (JObject (dict (pairs @ [(key, v)])), drop 1 r4)
                     else if take 1 r4 \<noteq> '','' then None
                     else
                       (let r5 = skip_ws (drop 1 r4) in
                        if take 1 r5 \<noteq> [CHR 0x22] then None
                        else JSONObject (pairs @ [(key, v)]) (drop 1 r5)))
                  else None)))"
  by pat_completeness auto
termination
proof (relation "measure (\<lambda>x. case x of
            Inl s \<Rightarrow> 2 * length s
          | Inr (Inl (vs, s)) \<Rightarrow> 2 * length s + 1
          | Inr (Inr (ps, s)) \<Rightarrow> 2 * length s + 1)", goal_cases)
  case 1
  show ?case by simp
next
  case (2 s nextchar r r1)
  from 2(1,4) length_drop_skip_ws [of 1 r] show ?case by simp
next
  case (3 s nextchar r r1)
  from 3(1,5) length_skip_ws [of r] show ?case by simp
next
  case (4 vs s)
  show ?case by simp
next
  case (5 vs s x2 v r r1)
  from 5(3,4) length_skip_drop_skip [of 1 r] show ?case by simp
next
  case (6 ps s x2 key r r1 r2)
  from 6(1,2) have "length r < length s" by (auto dest: scanstring_shorter)
  with 6(3,5) length_skip_drop_skip [of 1 r] show ?case by simp
next
  case (7 ps s x2 key r r1 r2 x2a v r3 r4 r5)
  from 7(1,2) have a: "length r < length s" by (auto dest: scanstring_shorter)
  from 7(3,5) length_skip_drop_skip [of 1 r] have b: "length r2 \<le> length r" by simp
  from 7(9,12) length_drop_skip_drop_skip [of 1 1 r3] have c: "length (drop 1 r5) \<le> length r3" by simp
  from a b c 7(8) show ?case by simp
qed

text \<open>
  The test \<open>length r < length s\<close> in the two loops is what the termination proof rests
  on. It never fails: whatever \<open>scan_once\<close> returns is shorter than what it was given
  (lemma \<open>scan_once_shorter\<close> below), so the loops are those of the library.
\<close>

declare scan_once.simps [simp del] JSONArray.simps [simp del] JSONObject.simps [simp del]

text \<open>\<^verbatim>\<open>json.loads\<close>: one value, white space around it, and nothing else.\<close>

definition json_loads :: "string \<Rightarrow> py_exception + json" where
  "json_loads s =
     (case scan_once (skip_ws s) of
        None \<Rightarrow> Inl JSONDecodeError
      | Some (obj, r) \<Rightarrow> if skip_ws r \<noteq> [] then Inl JSONDecodeError else Inr obj)"

subsection \<open>Walking the two directories\<close>

text \<open>
  The \<^verbatim>\<open>for _ in range(num_entries)\<close> loop of \<^verbatim>\<open>scan_ifd_for_exif\<close>: four reads for each
  12-byte entry, and the value of the first entry with tag 34665 is returned.
\<close>

fun scan_ifd_loop :: "TIFFAstroReader \<Rightarrow> nat \<Rightarrow> binary_file \<Rightarrow> nat option \<times> binary_file" where
  "scan_ifd_loop self 0 f = (None, f)"
| "scan_ifd_loop self (Suc n) f =
     (let (tag, f1) = read_uint16 self f;
          (entry_type, f2) = read_uint16 self f1;
          (count, f3) = read_uint32 self f2;
          (value_offset, f4) = read_uint32 self f3
      in if tag = 34665 then (Some value_offset, f4)
         else scan_ifd_loop self n f4)"

definition scan_ifd_for_exif ::
  "TIFFAstroReader \<Rightarrow> binary_file \<Rightarrow> nat \<Rightarrow> nat option \<times> binary_file" where
  "scan_ifd_for_exif self f offset =
     (if offset = 0 then (None, f)
      else
        (let f1 = f_seek offset f;
             (num_entries, f2) = read_uint16 self f1
         in if num_entries > 1000 then (None, f2)
            else scan_ifd_loop self num_entries f2))"

text \<open>Python's \<^verbatim>\<open>sub in s\<close> on strings: \<open>sub\<close> occurs in \<open>s\<close> as a contiguous run.\<close>

fun str_in :: "string \<Rightarrow> string \<Rightarrow> bool" where
  "str_in sub [] = (sub = [])"
| "str_in sub (c # s) = (take (length sub) (c # s) = sub \<or> str_in sub s)"

text \<open>The test \<^verbatim>\<open>"StackedInfo" in text and "{" in text\<close>.\<close>

definition looks_like_origin :: "string \<Rightarrow> bool" where
  "looks_like_origin s = (str_in ''StackedInfo'' s \<and> str_in ''{'' s)"

text \<open>
  The loop of \<^verbatim>\<open>scan_exif_for_origin_data\<close>. An entry with tag 37500 and type 7 has its
  bytes read and decoded; the text is returned when it passes the test, and the loop goes
  on to the next entry when it does not.
\<close>

fun scan_exif_loop :: "TIFFAstroReader \<Rightarrow> nat \<Rightarrow> binary_file \<Rightarrow> string option \<times> binary_file" where
  "scan_exif_loop self 0 f = (None, f)"
| "scan_exif_loop self (Suc n) f =
     (let (tag, f1) = read_uint16 self f;
          (entry_type, f2) = read_uint16 self f1;
          (count, f3) = read_uint32 self f2;
          (value_offset, f4) = read_uint32 self f3
      in if tag = 37500 \<and> entry_type = 7 then
           (let (data, f5) = read_data_at_offset self f4 value_offset count;
                text = decode_text data
            in if looks_like_origin text then (Some text, f5)
               else scan_exif_loop self n f5)
         else scan_exif_loop self n f4)"

definition scan_exif_for_origin_data ::
  "TIFFAstroReader \<Rightarrow> binary_file \<Rightarrow> nat \<Rightarrow> string option \<times> binary_file" where
  "scan_exif_for_origin_data self f exif_offset =
     (let f1 = f_seek exif_offset f;
          (num_entries, f2) = read_uint16 self f1
      in if num_entries > 100 then (None, f2)
         else scan_exif_loop self num_entries f2)"

subsection \<open>The top-level extraction\<close>

text \<open>
  A call of a Python function either returns a value or raises: \<open>Inr v\<close> and \<open>Inl e\<close>.
  The exceptions are those the \<^verbatim>\<open>except\<close> clause of \<^verbatim>\<open>extract_astronomical_metadata\<close>
  names. \<^verbatim>\<open>open\<close> raises \<^verbatim>\<open>IOError\<close> for a path it cannot open; the file system is a map
  from the paths that can be opened to their contents.
\<close>

type_synonym filesystem = "string \<Rightarrow> bytes option"

definition py_open :: "filesystem \<Rightarrow> string \<Rightarrow> py_exception + binary_file" where
  "py_open fs name =
     (case fs name of
        None \<Rightarrow> Inl IOError
      | Some data \<Rightarrow> Inr \<lparr>contents = data, pos = 0\<rparr>)"

text \<open>
  The body of the \<^verbatim>\<open>with\<close> block, on the opened file. The result is the value returned or
  the exception raised, and the file object as the body leaves it. \<^verbatim>\<open>not exif_offset\<close>
  holds for \<^verbatim>\<open>None\<close> and for 0, \<^verbatim>\<open>not json_text\<close> for \<^verbatim>\<open>None\<close> and for the empty string.
\<close>

definition extract_body ::
  "TIFFAstroReader \<Rightarrow> binary_file \<Rightarrow> (py_exception + json option) \<times> binary_file" where
  "extract_body self f =
     (let (byte_order, f1) = f_read 2 f
      in if byte_order \<noteq> ''II'' \<and> byte_order \<noteq> ''MM'' then (Inr None, f1)
         else
           (let self1 = self\<lparr>is_little_endian := (byte_order = ''II'')\<rparr>;
                (magic, f2) = read_uint16 self1 f1
            in if magic \<noteq> 42 then (Inr None, f2)
               else
                 (let (first_ifd_offset, f3) = read_uint32 self1 f2;
                      (exif_offset, f4) = scan_ifd_for_exif self1 f3 first_ifd_offset
                  in case exif_offset of
                       None \<Rightarrow> (Inr None, f4)
                     | Some exif_offset' \<Rightarrow>
                         if exif_offset' = 0 then (Inr None, f4)
                         else
                           (let (json_text, f5) = scan_exif_for_origin_data self1 f4 exif_offset'
                            in case json_text of
                                 None \<Rightarrow> (Inr None, f5)
                               | Some json_text' \<Rightarrow>
                                   if json_text' = [] then (Inr None, f5)
                                   else
                                     (case json_loads json_text' of
                                        Inl e \<Rightarrow> (Inl e, f5)
                                      | Inr obj \<Rightarrow> (Inr (Some obj), f5))))))"

text \<open>
  The whole method: \<^verbatim>\<open>open\<close>, the body, and the handler
  \<^verbatim>\<open>except (IOError, json.JSONDecodeError, struct.error): return None\<close>.
\<close>

definition extract_astronomical_metadata ::
  "filesystem \<Rightarrow> TIFFAstroReader \<Rightarrow> py_exception + json option" where
  "extract_astronomical_metadata fs self =
     (case (case py_open fs (filename self) of
              Inl e \<Rightarrow> Inl e
            | Inr f \<Rightarrow> fst (extract_body self f)) of
        Inl e \<Rightarrow>
          if e = IOError \<or> e = JSONDecodeError \<or> e = StructError then Inr None else Inl e
      | Inr result \<Rightarrow> Inr result)"

section \<open>The directories as the reader sees them\<close>

text \<open>
  The vocabulary of the statements below. An entry is what the four reads of one loop
  iteration deliver; the directory at an offset is the list of entries that the count
  field at this offset announces, read in file order with the reader's own functions
  (a read that meets the end of the file delivers 0, as in the code).
\<close>

record ifd_entry =
  e_tag :: nat
  e_type :: nat
  e_count :: nat
  e_value :: nat

definition read_entry :: "TIFFAstroReader \<Rightarrow> binary_file \<Rightarrow> ifd_entry \<times> binary_file" where
  "read_entry self f =
     (let (t, f1) = read_uint16 self f;
          (ty, f2) = read_uint16 self f1;
          (c, f3) = read_uint32 self f2;
          (v, f4) = read_uint32 self f3
      in (\<lparr>e_tag = t, e_type = ty, e_count = c, e_value = v\<rparr>, f4))"

fun read_entries :: "TIFFAstroReader \<Rightarrow> nat \<Rightarrow> binary_file \<Rightarrow> ifd_entry list" where
  "read_entries self 0 f = []"
| "read_entries self (Suc n) f =
     (let (e, f') = read_entry self f in e # read_entries self n f')"

definition at :: "bytes \<Rightarrow> nat \<Rightarrow> binary_file" where
  "at data p = \<lparr>contents = data, pos = p\<rparr>"

definition dir_count :: "TIFFAstroReader \<Rightarrow> bytes \<Rightarrow> nat \<Rightarrow> nat" where
  "dir_count self data offset = fst (read_uint16 self (at data offset))"

definition directory :: "TIFFAstroReader \<Rightarrow> bytes \<Rightarrow> nat \<Rightarrow> ifd_entry list" where
  "directory self data offset =
     (let (n, f) = read_uint16 self (at data offset) in read_entries self n f)"

text \<open>The text decoded from the bytes an entry points at.\<close>

definition payload_text :: "bytes \<Rightarrow> ifd_entry \<Rightarrow> string" where
  "payload_text data e = decode_text (take (e_count e) (drop (e_value e) data))"

definition is_exif_pointer :: "ifd_entry \<Rightarrow> bool" where
  "is_exif_pointer e = (e_tag e = 34665)"

definition is_origin_entry :: "ifd_entry \<Rightarrow> bool" where
  "is_origin_entry e = (e_tag e = 37500 \<and> e_type e = 7)"

text \<open>
  The header: the reader with the byte order the first two bytes select, the magic number
  read at offset 2 and the offset of the root directory read at offset 4.
\<close>

definition with_order :: "TIFFAstroReader \<Rightarrow> bytes \<Rightarrow> TIFFAstroReader" where
  "with_order self data = self\<lparr>is_little_endian := (take 2 data = ''II'')\<rparr>"

definition header_ok :: "TIFFAstroReader \<Rightarrow> bytes \<Rightarrow> bool" where
  "header_ok self data =
     ((take 2 data = ''II'' \<or> take 2 data = ''MM'')
      \<and> fst (read_uint16 (with_order self data) (at data 2)) = 42)"

definition first_ifd :: "TIFFAstroReader \<Rightarrow> bytes \<Rightarrow> nat" where
  "first_ifd self data = fst (read_uint32 (with_order self data) (at data 4))"

definition exif_pointer :: "TIFFAstroReader \<Rightarrow> bytes \<Rightarrow> nat \<Rightarrow> nat option" where
  "exif_pointer self data offset =
     map_option e_value (find is_exif_pointer (directory self data offset))"

text \<open>
  The EXIF directory of a file, when the file has one that the reader accepts: a header
  with a byte order mark and the magic number 42, a root directory of at most 1000
  entries, in it an entry with tag 34665 whose value is not 0, and at that offset a
  directory of at most 100 entries.
\<close>

definition exif_directory :: "TIFFAstroReader \<Rightarrow> bytes \<Rightarrow> ifd_entry list option" where
  "exif_directory self data =
     (if \<not> header_ok self data then None
      else if first_ifd self data = 0
              \<or> dir_count (with_order self data) data (first_ifd self data) > 1000 then None
      else
        (case exif_pointer (with_order self data) data (first_ifd self data) of
           None \<Rightarrow> None
         | Some exif_offset \<Rightarrow>
             if exif_offset = 0 \<or> dir_count (with_order self data) data exif_offset > 100
             then None
             else Some (directory (with_order self data) data exif_offset)))"

text \<open>
  The texts of the entries with tag 37500 and type 7 of a directory, in directory order,
  and of these the first that passes the test for Origin JSON.
\<close>

definition origin_candidates :: "bytes \<Rightarrow> ifd_entry list \<Rightarrow> string list" where
  "origin_candidates data es = map (payload_text data) (filter is_origin_entry es)"

definition selected_text :: "TIFFAstroReader \<Rightarrow> bytes \<Rightarrow> string option" where
  "selected_text self data =
     (case exif_directory self data of
        None \<Rightarrow> None
      | Some exif \<Rightarrow> find looks_like_origin (origin_candidates data exif))"

text \<open>Python strings as code points, and \<^verbatim>\<open>obj[key]\<close> on a decoded document.\<close>

definition py_str :: "string \<Rightarrow> pystr" where
  "py_str s = map of_char s"

fun json_getitem :: "json \<Rightarrow> string \<Rightarrow> json option" where
  "json_getitem (JObject d) key = map_of d (py_str key)"
| "json_getitem j key = None"

text \<open>A file system that holds one file.\<close>

definition one_file :: "string \<Rightarrow> bytes \<Rightarrow> filesystem" where
  "one_file name data = (\<lambda>p. if p = name then Some data else None)"

section \<open>Encoding a logical TIFF structure\<close>

text \<open>
  \<^verbatim>\<open>struct.pack\<close> for an unsigned integer of \<open>w\<close> bytes in either byte order, and a
  logical description of a TIFF file: the header fields and, from offset 8 on, a sequence
  of segments, each a run of raw bytes, a 16-bit or 32-bit value, or a directory with its
  entries and its next-directory offset. The same description is encoded with \<^verbatim>\<open>II\<close> or
  with \<^verbatim>\<open>MM\<close>; the raw bytes are the same in both, every multi-byte field is swapped.
\<close>

fun le_bytes :: "nat \<Rightarrow> nat \<Rightarrow> bytes" where
  "le_bytes 0 v = []"
| "le_bytes (Suc w) v = char_of (v mod 256) # le_bytes w (v div 256)"

definition struct_pack :: "bool \<Rightarrow> nat \<Rightarrow> nat \<Rightarrow> bytes" where
  "struct_pack little w v = (if little then le_bytes w v else rev (le_bytes w v))"

datatype segment = Raw bytes | Short nat | Long nat | Ifd "ifd_entry list" nat

record tiff_structure =
  t_magic :: nat
  t_first_ifd :: nat
  t_segments :: "segment list"

definition enc_entry :: "bool \<Rightarrow> ifd_entry \<Rightarrow> bytes" where
  "enc_entry little e =
     struct_pack little 2 (e_tag e) @ struct_pack little 2 (e_type e)
     @ struct_pack little 4 (e_count e) @ struct_pack little 4 (e_value e)"

fun enc_segment :: "bool \<Rightarrow> segment \<Rightarrow> bytes" where
  "enc_segment little (Raw data) = data"
| "enc_segment little (Short v) = struct_pack little 2 v"
| "enc_segment little (Long v) = struct_pack little 4 v"
| "enc_segment little (Ifd es next_ifd) =
     struct_pack little 2 (length es) @ concat (map (enc_entry little) es)
     @ struct_pack little 4 next_ifd"

definition encode :: "bool \<Rightarrow> tiff_structure \<Rightarrow> bytes" where
  "encode little t =
     (if little then ''II'' else ''MM'')
     @ struct_pack little 2 (t_magic t) @ struct_pack little 4 (t_first_ifd t)
     @ concat (map (enc_segment little) (t_segments t))"

fun seg_size :: "segment \<Rightarrow> nat" where
  "seg_size (Raw data) = length data"
| "seg_size (Short v) = 2"
| "seg_size (Long v) = 4"
| "seg_size (Ifd es next_ifd) = 2 + 12 * length es + 4"

fun ifd_at_segs :: "segment list \<Rightarrow> nat \<Rightarrow> nat \<Rightarrow> ifd_entry list option" where
  "ifd_at_segs [] start offset = None"
| "ifd_at_segs (s # ss) start offset =
     (case s of
        Ifd es next_ifd \<Rightarrow>
          if start = offset then Some es else ifd_at_segs ss (start + seg_size s) offset
      | _ \<Rightarrow> ifd_at_segs ss (start + seg_size s) offset)"

text \<open>
  The directory that starts at a byte offset of the encoded file, and the \<open>n\<close> bytes at
  an offset when they lie inside one run of raw bytes.
\<close>

definition ifd_at :: "tiff_structure \<Rightarrow> nat \<Rightarrow> ifd_entry list option" where
  "ifd_at t offset = ifd_at_segs (t_segments t) 8 offset"

fun raw_at_segs :: "segment list \<Rightarrow> nat \<Rightarrow> nat \<Rightarrow> nat \<Rightarrow> bytes option" where
  "raw_at_segs [] start offset n = None"
| "raw_at_segs (s # ss) start offset n =
     (case s of
        Raw data \<Rightarrow>
          if start \<le> offset \<and> offset + n \<le> start + length data
          then Some (take n (drop (offset - start) data))
          else raw_at_segs ss (start + seg_size s) offset n
      | _ \<Rightarrow> raw_at_segs ss (start + seg_size s) offset n)"

definition raw_at :: "tiff_structure \<Rightarrow> nat \<Rightarrow> nat \<Rightarrow> bytes option" where
  "raw_at t offset n = raw_at_segs (t_segments t) 8 offset n"

text \<open>
  A structure is well formed when every field fits its width, the header points at a
  directory (or holds 0), every entry with tag 34665 points at a directory (or holds 0),
  and the bytes of every entry with tag 37500 and type 7 are raw bytes of the file.
\<close>

definition entry_ok :: "ifd_entry \<Rightarrow> bool" where
  "entry_ok e =
     (e_tag e < 65536 \<and> e_type e < 65536 \<and> e_count e < 4294967296 \<and> e_value e < 4294967296)"

fun segment_ok :: "segment \<Rightarrow> bool" where
  "segment_ok (Raw data) = True"
| "segment_ok (Short v) = (v < 65536)"
| "segment_ok (Long v) = (v < 4294967296)"
| "segment_ok (Ifd es next_ifd) =
     (length es < 65536 \<and> list_all entry_ok es \<and> next_ifd < 4294967296)"

fun seg_entries :: "segment \<Rightarrow> ifd_entry list" where
  "seg_entries (Ifd es next_ifd) = es"
| "seg_entries s = []"

definition pointer_ok :: "tiff_structure \<Rightarrow> ifd_entry \<Rightarrow> bool" where
  "pointer_ok t e =
     ((e_tag e = 34665 \<longrightarrow> e_value e = 0 \<or> ifd_at t (e_value e) \<noteq> None)
      \<and> (e_tag e = 37500 \<and> e_type e = 7 \<longrightarrow> raw_at t (e_value e) (e_count e) \<noteq> None))"

definition wf_structure :: "tiff_structure \<Rightarrow> bool" where
  "wf_structure t =
     (t_magic t < 65536 \<and> t_first_ifd t < 4294967296
      \<and> list_all segment_ok (t_segments t)
      \<and> (t_first_ifd t = 0 \<or> ifd_at t (t_first_ifd t) \<noteq> None)
      \<and> list_all (pointer_ok t) (concat (map seg_entries (t_segments t))))"

text \<open>
  What the reader is to find in a structure, read off the structure itself: the EXIF
  directory, the text of an entry, and the first text that passes the test.
\<close>

definition logical_exif :: "tiff_structure \<Rightarrow> ifd_entry list option" where
  "logical_exif t =
     (if t_magic t \<noteq> 42 \<or> t_first_ifd t = 0 then None
      else
        (case ifd_at t (t_first_ifd t) of
           None \<Rightarrow> None
         | Some root \<Rightarrow>
             if length root > 1000 then None
             else
               (case find is_exif_pointer root of
                  None \<Rightarrow> None
                | Some p \<Rightarrow>
                    if e_value p = 0 then None
                    else
                      (case ifd_at t (e_value p) of
                         None \<Rightarrow> None
                       | Some exif \<Rightarrow> if length exif > 100 then None else Some exif))))"

definition logical_text :: "tiff_structure \<Rightarrow> ifd_entry \<Rightarrow> string" where
  "logical_text t e =
     (case raw_at t (e_value e) (e_count e) of
        None \<Rightarrow> []
      | Some data \<Rightarrow> decode_text data)"

definition logical_selected :: "tiff_structure \<Rightarrow> string option" where
  "logical_selected t =
     (case logical_exif t of
        None \<Rightarrow> None
      | Some exif \<Rightarrow>
          find looks_like_origin (map (logical_text t) (filter is_origin_entry exif)))"

section \<open>Example files\<close>

text \<open>
  The files the concrete statements below are about. \<open>origin_tiff ty payload\<close> is the
  smallest TIFF with an EXIF directory: the header, at offset 8 a root directory with the
  one entry 34665 that points at offset 26, there a directory with the one entry 37500 of
  type \<open>ty\<close>, and at offset 44 the payload.
\<close>

definition origin_entry :: "nat \<Rightarrow> nat \<Rightarrow> nat \<Rightarrow> ifd_entry" where
  "origin_entry ty n offset = \<lparr>e_tag = 37500, e_type = ty, e_count = n, e_value = offset\<rparr>"

definition origin_tiff :: "nat \<Rightarrow> bytes \<Rightarrow> tiff_structure" where
  "origin_tiff ty payload =
     \<lparr>t_magic = 42, t_first_ifd = 8,
      t_segments =
        [Ifd [\<lparr>e_tag = 34665, e_type = 4, e_count = 1, e_value = 26\<rparr>] 0,
         Ifd [origin_entry ty (length payload) 44] 0,
         Raw payload]\<rparr>"

definition m42_payload :: bytes where
  "m42_payload = ''{\"StackedInfo\":{\"objectName\":\"M42\"}}'' @ [CHR 0x00]"

definition m42_document :: json where
  "m42_document =
     JObject [(py_str ''StackedInfo'', JObject [(py_str ''objectName'', JString (py_str ''M42''))])]"

definition malformed_payload :: bytes where
  "malformed_payload = ''StackedInfo{not valid json''"

definition string_payload :: bytes where
  "string_payload = ''\"StackedInfo{\"''"

definition two_candidates :: tiff_structure where
  "two_candidates =
     \<lparr>t_magic = 42, t_first_ifd = 8,
      t_segments =
        [Ifd [\<lparr>e_tag = 34665, e_type = 4, e_count = 1, e_value = 26\<rparr>] 0,
         Ifd [origin_entry 7 4 56, origin_entry 7 17 60] 0,
         Raw ''junk'',
         Raw ''{\"StackedInfo\":2}'']\<rparr>"

definition root_1001_file :: bytes where
  "root_1001_file =
     ''II'' @ [CHR 0x2A, CHR 0x00] @ [CHR 0x08, CHR 0x00, CHR 0x00, CHR 0x00]
     @ [CHR 0xE9, CHR 0x03]"

definition exif_101_file :: bytes where
  "exif_101_file =
     ''II'' @ [CHR 0x2A, CHR 0x00] @ [CHR 0x08, CHR 0x00, CHR 0x00, CHR 0x00]
     @ [CHR 0x01, CHR 0x00]
     @ [CHR 0x69, CHR 0x87, CHR 0x04, CHR 0x00, CHR 0x01, CHR 0x00, CHR 0x00, CHR 0x00,
        CHR 0x1A, CHR 0x00, CHR 0x00, CHR 0x00]
     @ [CHR 0x00, CHR 0x00, CHR 0x00, CHR 0x00]
     @ [CHR 0x65, CHR 0x00]"

definition truncated_file :: bytes where
  "truncated_file = ''II'' @ [CHR 0x2A, CHR 0x00] @ [CHR 0x08]"

fun json_path :: "json \<Rightarrow> string list \<Rightarrow> json option" where
  "json_path j [] = Some j"
| "json_path j (key # keys) =
     (case json_getitem j key of
        None \<Rightarrow> None
      | Some j' \<Rightarrow> json_path j' keys)"

section \<open>Properties\<close>

subsection \<open>The decoder consumes what it reads\<close>

lemma length_int_part: "length (int_part s) \<le> length s"
proof (cases "take 1 s = ''0''")
  case True
  then show ?thesis by (cases s) (simp_all add: int_part_def)
next
  case False
  then show ?thesis by (simp add: int_part_def length_takeWhile_le)
qed

lemma match_number_shorter:
  assumes "match_number s = Some (v, r)"
  shows "length r < length s"
proof -
  define s1 where "s1 = (if take 1 s = ''-'' then drop 1 s else s)"
  from assms have ne: "int_part s1 \<noteq> []"
    by (auto simp: match_number_def Let_def s1_def split: if_splits)
  from assms have "\<exists>n. r = drop n s1 \<and> length (int_part s1) \<le> n"
    by (auto simp: match_number_def Let_def s1_def split: if_splits)
  then obtain n where r: "r = drop n s1" and n: "length (int_part s1) \<le> n" by blast
  from ne n have "0 < n" by (cases "int_part s1") auto
  moreover from ne length_int_part [of s1] have "0 < length s1"
    by (cases "int_part s1") auto
  moreover have "length s1 \<le> length s" by (simp add: s1_def)
  ultimately show ?thesis using r by (cases s1) auto
qed

lemma scan_once_shorter:
  "(\<forall>v r. scan_once s = Some (v, r) \<longrightarrow> length r < length s)"
  "(\<forall>v r. JSONArray vs s1 = Some (v, r) \<longrightarrow> length r < length s1)"
  "(\<forall>v r. JSONObject ps s2 = Some (v, r) \<longrightarrow> length r < length s2)"
proof (induction s and vs s1 and ps s2 rule: scan_once_JSONArray_JSONObject.induct)
  case (1 s)
  show ?case
  proof (intro allI impI)
    fix v r
    assume a: "scan_once s = Some (v, r)"
    then obtain c t where s: "s = c # t"
      by (cases s) (simp_all add: scan_once.simps [of "[]"])
    note a' = a [unfolded s scan_once.simps [of "c # t"] list.case]
    show "length r < length s"
    proof (cases "c = CHR 0x22")
      case True
      with a' obtain str where "scanstring [] t = Some (str, r)"
        by (auto split: option.splits)
      from scanstring_shorter [OF this] s show ?thesis by simp
    next
      case q: False
      show ?thesis
      proof (cases "c = CHR ''{''")
        case True
        show ?thesis
        proof (cases "take 1 (skip_ws t) = ''}''")
          case e: True
          with a' q True have "r = drop 1 (skip_ws t)"
            by (simp add: Let_def)
          with length_drop_skip_ws [of 1 t] s show ?thesis by simp
        next
          case e: False
          with a' q True have k: "take 1 (skip_ws t) = [CHR 0x22]"
            and o: "JSONObject [] (drop 1 (skip_ws t)) = Some (v, r)"
            by (simp_all add: Let_def split: if_splits)
          from "1.IH"(1) [OF s q True refl e] k o
          have "length r < length (drop 1 (skip_ws t))" by simp
          with length_drop_skip_ws [of 1 t] s show ?thesis by simp
        qed
      next
        case b: False
        show ?thesis
        proof (cases "c = CHR ''[''")
          case True
          show ?thesis
          proof (cases "take 1 (skip_ws t) = '']''")
            case e: True
            with a' q b True have "r = drop 1 (skip_ws t)"
              by (simp add: Let_def)
            with length_drop_skip_ws [of 1 t] s show ?thesis by simp
          next
            case e: False
            with a' q b True have o: "JSONArray [] (skip_ws t) = Some (v, r)"
              by (simp add: Let_def)
            from "1.IH"(2) [OF s q b True refl e] o
            have "length r < length (skip_ws t)" by simp
            with length_skip_ws [of t] s show ?thesis by simp
          qed
        next
          case False
          with a' q b
          have "(\<exists>n. 0 < n \<and> r = drop n (c # t)) \<or> match_number (c # t) = Some (v, r)"
            by (auto split: if_splits option.splits)
          then show ?thesis
          proof
            assume "\<exists>n. 0 < n \<and> r = drop n (c # t)"
            with s show ?thesis by auto
          next
            assume "match_number (c # t) = Some (v, r)"
            from match_number_shorter [OF this] s show ?thesis by simp
          qed
        qed
      qed
    qed
  qed
next
  case (2 vs s)
  show ?case
  proof (intro allI impI)
    fix v r
    assume a: "JSONArray vs s = Some (v, r)"
    then obtain x r0 where x: "scan_once s = Some (x, r0)"
      by (auto simp: JSONArray.simps [of vs s] split: option.splits)
    with "2.IH"(1) have l: "length r0 < length s" by simp
    show "length r < length s"
    proof (cases "take 1 (skip_ws r0) = '']''")
      case True
      with a x l have "r = drop 1 (skip_ws r0)"
        by (simp add: JSONArray.simps [of vs s] Let_def)
      with length_drop_skip_ws [of 1 r0] l show ?thesis by simp
    next
      case False
      with a x l have k: "\<not> take 1 (skip_ws r0) \<noteq> '',''"
        and o: "JSONArray (vs @ [x]) (skip_ws (drop 1 (skip_ws r0))) = Some (v, r)"
        by (simp_all add: JSONArray.simps [of vs s] Let_def split: if_splits)
      from "2.IH"(2) [OF x refl l refl False k] o
      have "length r < length (skip_ws (drop 1 (skip_ws r0)))" by simp
      with length_skip_drop_skip [of 1 r0] l show ?thesis by simp
    qed
  qed
next
  case (3 ps s)
  show ?case
  proof (intro allI impI)
    fix v r
    assume a: "JSONObject ps s = Some (v, r)"
    then obtain key r0 where key: "scanstring [] s = Some (key, r0)"
      by (auto simp: JSONObject.simps [of ps s] split: option.splits)
    from scanstring_shorter [OF key] have l0: "length r0 < length s" .
    from a key have colon: "\<not> take 1 (skip_ws r0) \<noteq> '':''"
      by (auto simp: JSONObject.simps [of ps s] Let_def split: if_splits)
    let ?r2 = "skip_ws (drop 1 (skip_ws r0))"
    have l2: "length ?r2 \<le> length r0"
      by (rule length_skip_drop_skip)
    from a key colon obtain x r3 where x: "scan_once ?r2 = Some (x, r3)"
      by (auto simp: JSONObject.simps [of ps s] Let_def split: option.splits if_splits)
    from "3.IH"(1) [OF key refl refl colon refl] x have l3: "length r3 < length ?r2" by simp
    show "length r < length s"
    proof (cases "take 1 (skip_ws r3) = ''}''")
      case True
      with a key colon x l3 have "r = drop 1 (skip_ws r3)"
        by (simp add: JSONObject.simps [of ps s] Let_def)
      with length_drop_skip_ws [of 1 r3] l3 l2 l0 show ?thesis by simp
    next
      case False
      with a key colon x l3 have k: "\<not> take 1 (skip_ws r3) \<noteq> '',''"
        and q: "\<not> take 1 (skip_ws (drop 1 (skip_ws r3))) \<noteq> [CHR 0x22]"
        and o: "JSONObject (ps @ [(key, x)]) (drop 1 (skip_ws (drop 1 (skip_ws r3)))) = Some (v, r)"
        by (simp_all add: JSONObject.simps [of ps s] Let_def split: if_splits)
      from "3.IH"(2) [OF key refl refl colon refl x refl l3 refl False k refl q] o
      have "length r < length (drop 1 (skip_ws (drop 1 (skip_ws r3))))" by simp
      with length_drop_skip_drop_skip [of 1 1 r3] l3 l2 l0 show ?thesis by simp
    qed
  qed
qed

subsection \<open>The loops in terms of the directories\<close>

lemma read_data_at_offset_eq:
  "read_data_at_offset self f offset count = (take count (drop offset (contents f)), f)"
  by (simp add: read_data_at_offset_def f_tell_def f_seek_def f_read_def Let_def)

lemma decode_loop_eq:
  "decode_loop text data = text @ filter printable (takeWhile (\<lambda>b. \<not> is_null b) data)"
  by (induction data arbitrary: "text") (simp_all add: printable_def is_null_def chr_def)

lemma contents_f_read [simp]: "contents (snd (f_read n f)) = contents f"
  by (simp add: f_read_def Let_def)

lemma contents_read_uint16 [simp]: "contents (snd (read_uint16 self f)) = contents f"
  by (simp add: read_uint16_def f_read_def Let_def)

lemma contents_read_uint32 [simp]: "contents (snd (read_uint32 self f)) = contents f"
  by (simp add: read_uint32_def f_read_def Let_def)

lemma contents_read_entry [simp]: "contents (snd (read_entry self f)) = contents f"
  by (simp add: read_entry_def split_beta Let_def)

lemma scan_ifd_loop_find:
  "fst (scan_ifd_loop self n f)
     = map_option e_value (find is_exif_pointer (read_entries self n f))"
  by (induction n arbitrary: f)
     (simp_all add: read_entry_def split_beta Let_def is_exif_pointer_def)

lemma scan_exif_loop_find:
  "fst (scan_exif_loop self n f)
     = find looks_like_origin (origin_candidates (contents f) (read_entries self n f))"
proof (induction n arbitrary: f)
  case 0
  show ?case by (simp add: origin_candidates_def)
next
  case (Suc n)
  have c: "contents (snd (read_entry self f)) = contents f" by simp
  show ?case
    using Suc [of "snd (read_entry self f)"] c
    by (simp add: read_entry_def split_beta Let_def is_origin_entry_def payload_text_def
          origin_candidates_def read_data_at_offset_eq)
qed

lemma contents_scan_ifd_loop [simp]: "contents (snd (scan_ifd_loop self n f)) = contents f"
proof (induction n arbitrary: f)
  case 0
  show ?case by simp
next
  case (Suc n)
  show ?case
    using Suc [of "snd (read_entry self f)"] contents_read_entry [of self f]
    by (simp add: read_entry_def split_beta Let_def)
qed

lemma contents_scan_ifd_for_exif [simp]:
  "contents (snd (scan_ifd_for_exif self f offset)) = contents f"
  by (simp add: scan_ifd_for_exif_def split_beta Let_def f_seek_def)

lemma at_eq: "f = at (contents f) (pos f)"
  by (simp add: at_def)

lemma read_uint16_contents_only:
  "contents f = contents g \<Longrightarrow> pos f = pos g \<Longrightarrow> read_uint16 self f = read_uint16 self g"
  by (cases f, cases g) simp

lemma scan_ifd_for_exif_eq:
  "fst (scan_ifd_for_exif self f offset)
     = (if offset = 0 \<or> dir_count self (contents f) offset > 1000 then None
        else exif_pointer self (contents f) offset)"
  by (cases f)
     (simp add: scan_ifd_for_exif_def split_beta Let_def f_seek_def dir_count_def
        exif_pointer_def directory_def at_def scan_ifd_loop_find)

lemma scan_exif_for_origin_data_eq:
  "fst (scan_exif_for_origin_data self f offset)
     = (if dir_count self (contents f) offset > 100 then None
        else find looks_like_origin
               (origin_candidates (contents f) (directory self (contents f) offset)))"
  by (cases f)
     (simp add: scan_exif_for_origin_data_def split_beta Let_def f_seek_def dir_count_def
        origin_candidates_def directory_def at_def scan_exif_loop_find)

lemma read_uint16_nonzero_pos:
  "fst (read_uint16 self f) \<noteq> 0 \<Longrightarrow> snd (read_uint16 self f) = f\<lparr>pos := pos f + 2\<rparr>"
  by (simp add: read_uint16_def f_read_def Let_def split: if_splits)

lemma looks_like_origin_nonempty: "looks_like_origin s \<Longrightarrow> s \<noteq> []"
  by (auto simp: looks_like_origin_def)

lemma find_looks_nonempty: "find looks_like_origin xs = Some s \<Longrightarrow> s \<noteq> []"
  by (auto simp: find_Some_iff dest: looks_like_origin_nonempty)

lemma extract_body_eq:
  "fst (extract_body self (at data 0))
     = (case selected_text self data of
          None \<Rightarrow> Inr None
        | Some s \<Rightarrow>
            (case json_loads s of
               Inl e \<Rightarrow> Inl e
             | Inr obj \<Rightarrow> Inr (Some obj)))"
proof (cases "take 2 data = ''II'' \<or> take 2 data = ''MM''")
  case False
  then show ?thesis
    by (simp add: extract_body_def selected_text_def exif_directory_def header_ok_def
          f_read_def at_def Let_def)
next
  case True
  then have "length (take 2 data) = length ''II'' \<or> length (take 2 data) = length ''MM''"
    by (metis (full_types))
  then have len: "length (take 2 data) = 2" by (simp del: length_take)
  define r where "r = with_order self data"
  have f1: "f_read 2 (at data 0) = (take 2 data, at data 2)"
    using len by (simp add: f_read_def at_def Let_def del: length_take)
  show ?thesis
  proof (cases "fst (read_uint16 r (at data 2)) = 42")
    case False
    with True show ?thesis
      by (auto simp add: extract_body_def selected_text_def exif_directory_def header_ok_def
            f1 r_def with_order_def split_beta Let_def)
  next
    case magic: True
    then have f2: "snd (read_uint16 r (at data 2)) = at data 4"
      using read_uint16_nonzero_pos [of r "at data 2"] by (simp add: at_def)
    have c3: "contents (snd (read_uint32 r (at data 4))) = data"
      by (simp add: at_def)
    show ?thesis
      using True magic f2 c3
      by (auto simp add: extract_body_def selected_text_def exif_directory_def header_ok_def
            first_ifd_def f1 r_def [symmetric] with_order_def [symmetric] split_beta Let_def
            scan_ifd_for_exif_eq scan_exif_for_origin_data_eq
            dest: find_looks_nonempty
            split: option.splits sum.splits)
  qed
qed

lemma json_loads_error: "json_loads s = Inl e \<Longrightarrow> e = JSONDecodeError"
  by (auto simp: json_loads_def split: option.splits if_splits)

lemma extract_eq:
  "extract_astronomical_metadata fs self
     = (case fs (filename self) of
          None \<Rightarrow> Inr None
        | Some data \<Rightarrow>
            (case selected_text self data of
               None \<Rightarrow> Inr None
             | Some s \<Rightarrow>
                 (case json_loads s of
                    Inl e \<Rightarrow> Inr None
                  | Inr obj \<Rightarrow> Inr (Some obj))))"
  using extract_body_eq [of self]
  by (auto simp: extract_astronomical_metadata_def py_open_def at_def
        split: option.splits sum.splits dest: json_loads_error)

subsection \<open>Reading an encoded structure\<close>

lemma length_le_bytes [simp]: "length (le_bytes w v) = w"
  by (induction w arbitrary: v) simp_all

lemma length_struct_pack [simp]: "length (struct_pack little w v) = w"
  by (simp add: struct_pack_def)

lemma le_uint_le_bytes: "le_uint (le_bytes w v) = v mod 256 ^ w"
proof (induction w arbitrary: v)
  case 0
  show ?case by simp
next
  case (Suc w)
  have "v mod 256 + 256 * (v div 256 mod 256 ^ w) = v mod (256 * 256 ^ w)"
    by (simp add: mod_mult2_eq)
  with Suc [of "v div 256"] show ?case by simp
qed

lemma struct_unpack_pack:
  "v < 256 ^ w \<Longrightarrow> struct_unpack little (struct_pack little w v) = v"
  by (simp add: struct_unpack_def struct_pack_def le_uint_le_bytes)

lemma read_uint16_packed:
  assumes "drop p data = struct_pack (is_little_endian self) 2 v @ rest" and "v < 65536"
  shows "read_uint16 self (at data p) = (v, at data (p + 2))"
proof -
  have "take 2 (drop p data) = struct_pack (is_little_endian self) 2 v"
    using assms(1) by simp
  moreover have "v < 256 ^ 2" using assms(2) by simp
  ultimately show ?thesis
    by (simp add: read_uint16_def f_read_def at_def Let_def struct_unpack_pack del: length_take)
qed

lemma read_uint32_packed:
  assumes "drop p data = struct_pack (is_little_endian self) 4 v @ rest" and "v < 4294967296"
  shows "read_uint32 self (at data p) = (v, at data (p + 4))"
proof -
  have "take 4 (drop p data) = struct_pack (is_little_endian self) 4 v"
    using assms(1) by simp
  moreover have "v < 256 ^ 4" using assms(2) by simp
  ultimately show ?thesis
    by (simp add: read_uint32_def f_read_def at_def Let_def struct_unpack_pack del: length_take)
qed

lemma drop_add_append:
  "drop p data = xs @ rest \<Longrightarrow> drop (p + length xs) data = rest"
  by (metis add.commute append_eq_conv_conj drop_drop)

lemma read_entry_packed:
  assumes d: "drop p data = enc_entry (is_little_endian self) e @ rest" and ok: "entry_ok e"
  shows "read_entry self (at data p) = (e, at data (p + 12))"
proof -
  let ?l = "is_little_endian self"
  have d0: "drop p data = struct_pack ?l 2 (e_tag e)
              @ (struct_pack ?l 2 (e_type e) @ struct_pack ?l 4 (e_count e)
                 @ struct_pack ?l 4 (e_value e) @ rest)"
    using d by (simp add: enc_entry_def)
  from drop_add_append [OF d0]
  have d1: "drop (p + 2) data = struct_pack ?l 2 (e_type e)
              @ (struct_pack ?l 4 (e_count e) @ struct_pack ?l 4 (e_value e) @ rest)"
    by simp
  from drop_add_append [OF d1]
  have d2: "drop (p + 2 + 2) data = struct_pack ?l 4 (e_count e)
              @ (struct_pack ?l 4 (e_value e) @ rest)"
    by simp
  from drop_add_append [OF d2]
  have d3: "drop (p + 2 + 2 + 4) data = struct_pack ?l 4 (e_value e) @ rest"
    by simp
  from ok have r: "e_tag e < 65536" "e_type e < 65536" "e_count e < 4294967296"
    "e_value e < 4294967296"
    by (simp_all add: entry_ok_def)
  note reads = read_uint16_packed [OF d0 r(1)] read_uint16_packed [OF d1 r(2)]
    read_uint32_packed [OF d2 r(3)] read_uint32_packed [OF d3 r(4)]
  have "read_entry self (at data p)
          = (\<lparr>e_tag = e_tag e, e_type = e_type e, e_count = e_count e, e_value = e_value e\<rparr>,
             at data (p + 2 + 2 + 4 + 4))"
    by (simp only: read_entry_def reads Let_def split_conv)
  then show ?thesis by (simp add: add.commute)
qed

lemma read_entries_packed:
  "drop p data = concat (map (enc_entry (is_little_endian self)) es) @ rest
   \<Longrightarrow> list_all entry_ok es
   \<Longrightarrow> read_entries self (length es) (at data p) = es"
proof (induction es arbitrary: p)
  case Nil
  show ?case by simp
next
  case (Cons e es)
  let ?l = "is_little_endian self"
  from Cons.prems(1)
  have d: "drop p data = enc_entry ?l e @ (concat (map (enc_entry ?l) es) @ rest)"
    by simp
  have len: "length (enc_entry ?l e) = 12" by (simp add: enc_entry_def)
  from drop_add_append [OF d] len
  have d': "drop (p + 12) data = concat (map (enc_entry ?l) es) @ rest" by simp
  from Cons.prems(2) have ok: "entry_ok e" "list_all entry_ok es" by simp_all
  show ?case
    by (simp add: read_entry_packed [OF d ok(1)] Cons.IH [OF d' ok(2)])
qed

lemma length_enc_entry [simp]: "length (enc_entry little e) = 12"
  by (simp add: enc_entry_def)

lemma length_concat_enc_entries [simp]:
  "length (concat (map (enc_entry little) es)) = 12 * length es"
  by (induction es) simp_all

lemma length_enc_segment [simp]: "length (enc_segment little s) = seg_size s"
  by (cases s) simp_all

lemma ifd_at_segs_drop:
  "ifd_at_segs ss start offset = Some es \<Longrightarrow>
   start \<le> offset \<and> (\<exists>next_ifd rest.
       drop (offset - start) (concat (map (enc_segment little) ss))
         = enc_segment little (Ifd es next_ifd) @ rest
       \<and> Ifd es next_ifd \<in> set ss)"
proof (induction ss arbitrary: start)
  case Nil
  then show ?case by simp
next
  case (Cons s ss)
  show ?case
  proof (cases "\<exists>next_ifd. s = Ifd es next_ifd \<and> start = offset")
    case True
    then show ?thesis by auto
  next
    case False
    with Cons.prems have "ifd_at_segs ss (start + seg_size s) offset = Some es"
      by (auto split: segment.splits if_splits)
    from Cons.IH [OF this] obtain next_ifd rest where
      le: "start + seg_size s \<le> offset" and
      dr: "drop (offset - (start + seg_size s)) (concat (map (enc_segment little) ss))
             = enc_segment little (Ifd es next_ifd) @ rest" and
      mem: "Ifd es next_ifd \<in> set ss"
      by blast
    from le dr have "drop (offset - start) (concat (map (enc_segment little) (s # ss)))
        = enc_segment little (Ifd es next_ifd) @ rest"
      by simp
    with le mem show ?thesis by auto
  qed
qed

lemma raw_at_segs_take:
  "raw_at_segs ss start offset n = Some data \<Longrightarrow>
   start \<le> offset
   \<and> take n (drop (offset - start) (concat (map (enc_segment little) ss))) = data"
proof (induction ss arbitrary: start)
  case Nil
  then show ?case by simp
next
  case (Cons s ss)
  show ?case
  proof (cases "\<exists>raw. s = Raw raw \<and> start \<le> offset \<and> offset + n \<le> start + length raw")
    case True
    with Cons.prems show ?thesis by auto
  next
    case False
    with Cons.prems have "raw_at_segs ss (start + seg_size s) offset n = Some data"
      by (auto split: segment.splits if_splits)
    from Cons.IH [OF this] have
      le: "start + seg_size s \<le> offset" and
      tk: "take n (drop (offset - (start + seg_size s)) (concat (map (enc_segment little) ss)))
             = data"
      by blast+
    from le tk show ?thesis by simp
  qed
qed

lemma encode_split:
  "encode little t
     = ((if little then ''II'' else ''MM'') @ struct_pack little 2 (t_magic t)
        @ struct_pack little 4 (t_first_ifd t))
       @ concat (map (enc_segment little) (t_segments t))"
  by (simp add: encode_def)

lemma drop_encode:
  "8 \<le> offset \<Longrightarrow>
   drop offset (encode little t)
     = drop (offset - 8) (concat (map (enc_segment little) (t_segments t)))"
  by (simp add: encode_split del: append_assoc)

lemma take_2_encode: "take 2 (encode little t) = (if little then ''II'' else ''MM'')"
  by (simp add: encode_def)

lemma with_order_encode:
  "with_order self (encode little t) = self\<lparr>is_little_endian := little\<rparr>"
  by (simp add: with_order_def take_2_encode)

lemma header_ok_encode:
  "t_magic t < 65536 \<Longrightarrow> header_ok self (encode little t) = (t_magic t = 42)"
proof -
  assume m: "t_magic t < 65536"
  let ?r = "self\<lparr>is_little_endian := little\<rparr>"
  have "drop 2 (encode little t)
          = struct_pack (is_little_endian ?r) 2 (t_magic t)
            @ (struct_pack little 4 (t_first_ifd t)
               @ concat (map (enc_segment little) (t_segments t)))"
    by (simp add: encode_def)
  from read_uint16_packed [OF this m] show ?thesis
    by (simp add: header_ok_def with_order_encode take_2_encode)
qed

lemma first_ifd_encode:
  "t_first_ifd t < 4294967296 \<Longrightarrow> first_ifd self (encode little t) = t_first_ifd t"
proof -
  assume m: "t_first_ifd t < 4294967296"
  let ?r = "self\<lparr>is_little_endian := little\<rparr>"
  have "drop 4 (encode little t)
          = struct_pack (is_little_endian ?r) 4 (t_first_ifd t)
            @ concat (map (enc_segment little) (t_segments t))"
    by (simp add: encode_def)
  from read_uint32_packed [OF this m] show ?thesis
    by (simp add: first_ifd_def with_order_encode)
qed

lemma directory_encode:
  assumes at: "ifd_at t offset = Some es"
    and ok: "list_all segment_ok (t_segments t)"
    and l: "is_little_endian self = little"
  shows "dir_count self (encode little t) offset = length es"
    and "directory self (encode little t) offset = es"
proof -
  from at have "ifd_at_segs (t_segments t) 8 offset = Some es"
    by (simp add: ifd_at_def)
  from ifd_at_segs_drop [OF this, of little] obtain next_ifd rest where
    le: "8 \<le> offset" and
    dr: "drop (offset - 8) (concat (map (enc_segment little) (t_segments t)))
           = enc_segment little (Ifd es next_ifd) @ rest" and
    mem: "Ifd es next_ifd \<in> set (t_segments t)"
    by blast
  from ok mem have "segment_ok (Ifd es next_ifd)"
    unfolding list_all_iff by blast
  then have n: "length es < 65536" and es: "list_all entry_ok es" by simp_all
  from dr le l have d0: "drop offset (encode little t)
      = struct_pack (is_little_endian self) 2 (length es)
        @ (concat (map (enc_entry (is_little_endian self)) es)
           @ (struct_pack little 4 next_ifd @ rest))"
    by (simp add: drop_encode)
  from drop_add_append [OF d0]
  have d1: "drop (offset + 2) (encode little t)
      = concat (map (enc_entry (is_little_endian self)) es)
        @ (struct_pack little 4 next_ifd @ rest)"
    by simp
  note r = read_uint16_packed [OF d0 n]
  show "dir_count self (encode little t) offset = length es"
    by (simp add: dir_count_def r)
  show "directory self (encode little t) offset = es"
    by (simp only: directory_def r split_conv Let_def read_entries_packed [OF d1 es])
qed

lemma payload_encode:
  assumes "raw_at t offset n = Some data"
  shows "take n (drop offset (encode little t)) = data"
proof -
  from assms have "raw_at_segs (t_segments t) 8 offset n = Some data"
    by (simp add: raw_at_def)
  from raw_at_segs_take [OF this, of little] show ?thesis
    by (simp add: drop_encode)
qed

lemma ifd_at_entries:
  assumes "ifd_at t offset = Some es" and "e \<in> set es"
  shows "e \<in> set (concat (map seg_entries (t_segments t)))"
proof -
  from assms(1) have "ifd_at_segs (t_segments t) 8 offset = Some es"
    by (simp add: ifd_at_def)
  from ifd_at_segs_drop [OF this, of True] obtain next_ifd where
    "Ifd es next_ifd \<in> set (t_segments t)"
    by blast
  then have "es \<in> seg_entries ` set (t_segments t)"
    by (metis image_eqI seg_entries.simps(1))
  with assms(2) show ?thesis by auto
qed

lemma wf_pointer:
  assumes "wf_structure t" and "ifd_at t offset = Some es" and "e \<in> set es"
  shows "pointer_ok t e"
  using assms(1) ifd_at_entries [OF assms(2,3)]
  unfolding wf_structure_def list_all_iff by blast

lemma exif_directory_encode:
  assumes wf: "wf_structure t"
  shows "exif_directory self (encode little t) = logical_exif t"
proof -
  let ?data = "encode little t"
  let ?r = "with_order self ?data"
  from wf have m: "t_magic t < 65536" and fi: "t_first_ifd t < 4294967296"
    and ok: "list_all segment_ok (t_segments t)"
    and root: "t_first_ifd t = 0 \<or> ifd_at t (t_first_ifd t) \<noteq> None"
    by (simp_all add: wf_structure_def)
  have l: "is_little_endian ?r = little" by (simp add: with_order_encode)
  note h = header_ok_encode [OF m, of self little] first_ifd_encode [OF fi, of self little]
  show ?thesis
  proof (cases "t_magic t \<noteq> 42 \<or> t_first_ifd t = 0")
    case True
    then show ?thesis by (auto simp: exif_directory_def logical_exif_def h)
  next
    case False
    with root obtain rt where rt: "ifd_at t (t_first_ifd t) = Some rt" by auto
    note d = directory_encode [OF rt ok l]
    show ?thesis
    proof (cases "find is_exif_pointer rt")
      case None
      with False rt show ?thesis
        by (simp add: exif_directory_def logical_exif_def h d exif_pointer_def)
    next
      case (Some p)
      then have "p \<in> set rt" and "is_exif_pointer p"
        by (auto simp: find_Some_iff)
      with wf_pointer [OF wf rt] have "e_value p = 0 \<or> ifd_at t (e_value p) \<noteq> None"
        by (auto simp: pointer_ok_def is_exif_pointer_def)
      then show ?thesis
      proof
        assume "e_value p = 0"
        with False rt Some show ?thesis
          by (simp add: exif_directory_def logical_exif_def h d exif_pointer_def)
      next
        assume "ifd_at t (e_value p) \<noteq> None"
        then obtain ex where ex: "ifd_at t (e_value p) = Some ex" by auto
        note d' = directory_encode [OF ex ok l]
        from False rt Some ex show ?thesis
          by (simp add: exif_directory_def logical_exif_def h d d' exif_pointer_def)
      qed
    qed
  qed
qed

lemma logical_exif_ifd:
  "logical_exif t = Some exif \<Longrightarrow> \<exists>offset. ifd_at t offset = Some exif"
  by (auto simp: logical_exif_def split: if_splits option.splits)

lemma selected_text_encode:
  assumes wf: "wf_structure t"
  shows "selected_text self (encode little t) = logical_selected t"
proof (cases "logical_exif t")
  case None
  then show ?thesis
    by (simp add: selected_text_def logical_selected_def exif_directory_encode [OF wf])
next
  case (Some exif)
  from logical_exif_ifd [OF Some] obtain offset where at: "ifd_at t offset = Some exif" ..
  have "payload_text (encode little t) e = logical_text t e"
    if "e \<in> set (filter is_origin_entry exif)" for e
  proof -
    from that have "e \<in> set exif" and "is_origin_entry e" by simp_all
    with wf_pointer [OF wf at] have "raw_at t (e_value e) (e_count e) \<noteq> None"
      by (auto simp: pointer_ok_def is_origin_entry_def)
    then obtain data where data: "raw_at t (e_value e) (e_count e) = Some data" by auto
    from payload_encode [OF data, of little] data show ?thesis
      by (simp add: payload_text_def logical_text_def)
  qed
  then have "origin_candidates (encode little t) exif
               = map (logical_text t) (filter is_origin_entry exif)"
    by (simp add: origin_candidates_def)
  with Some show ?thesis
    by (simp add: selected_text_def logical_selected_def exif_directory_encode [OF wf])
qed

subsection \<open>The example files\<close>

lemma le_bytes_2: "le_bytes 2 v = [char_of v, char_of (v div 256)]"
proof -
  have "le_bytes (Suc (Suc 0)) v = [char_of v, char_of (v div 256)]" by simp
  moreover have "(2::nat) = Suc (Suc 0)" by simp
  ultimately show ?thesis by (simp only:)
qed

lemma le_bytes_4:
  "le_bytes 4 v = [char_of v, char_of (v div 256), char_of (v div 256 div 256),
                   char_of (v div 256 div 256 div 256)]"
proof -
  have "le_bytes (Suc (Suc (Suc (Suc 0)))) v
          = [char_of v, char_of (v div 256), char_of (v div 256 div 256),
             char_of (v div 256 div 256 div 256)]"
    by simp
  moreover have "(4::nat) = Suc (Suc (Suc (Suc 0)))" by simp
  ultimately show ?thesis by (simp only:)
qed

text \<open>The bytes of \<open>origin_tiff ty payload\<close> in the little-endian encoding.\<close>

lemma origin_tiff_bytes:
  "encode True (origin_tiff ty payload) =
     ''II'' @ [CHR 0x2A, CHR 0x00] @ [CHR 0x08, CHR 0x00, CHR 0x00, CHR 0x00]
     @ [CHR 0x01, CHR 0x00]
     @ [CHR 0x69, CHR 0x87, CHR 0x04, CHR 0x00, CHR 0x01, CHR 0x00, CHR 0x00, CHR 0x00,
        CHR 0x1A, CHR 0x00, CHR 0x00, CHR 0x00]
     @ [CHR 0x00, CHR 0x00, CHR 0x00, CHR 0x00]
     @ [CHR 0x01, CHR 0x00]
     @ [CHR 0x7C, CHR 0x92] @ struct_pack True 2 ty @ struct_pack True 4 (length payload)
     @ [CHR 0x2C, CHR 0x00, CHR 0x00, CHR 0x00]
     @ [CHR 0x00, CHR 0x00, CHR 0x00, CHR 0x00]
     @ payload"
  by (simp add: encode_def origin_tiff_def origin_entry_def enc_entry_def)
     (simp add: struct_pack_def le_bytes_2 le_bytes_4 char_of_eq_iff)

lemma origin_tiff_wf:
  "ty < 65536 \<Longrightarrow> length payload < 4294967296 \<Longrightarrow> wf_structure (origin_tiff ty payload)"
  by (simp add: wf_structure_def origin_tiff_def origin_entry_def entry_ok_def pointer_ok_def
        ifd_at_def raw_at_def)

lemma origin_tiff_exif:
  "logical_exif (origin_tiff ty payload) = Some [origin_entry ty (length payload) 44]"
  by (simp add: logical_exif_def origin_tiff_def ifd_at_def is_exif_pointer_def)

lemma origin_tiff_exif_directory:
  assumes "ty < 65536" and "length payload < 4294967296"
  shows "exif_directory self (encode little (origin_tiff ty payload))
           = Some [origin_entry ty (length payload) 44]"
  by (simp add: exif_directory_encode [OF origin_tiff_wf [OF assms]] origin_tiff_exif)

lemma origin_tiff_payload:
  "take (length payload) (drop 44 (encode little (origin_tiff ty payload))) = payload"
proof -
  have "raw_at (origin_tiff ty payload) 44 (length payload) = Some payload"
    by (simp add: raw_at_def origin_tiff_def)
  from payload_encode [OF this] show ?thesis .
qed

lemma origin_tiff_candidates:
  "origin_candidates (encode little (origin_tiff ty payload)) [origin_entry 7 (length payload) 44]
     = [decode_text payload]"
  by (simp add: origin_candidates_def is_origin_entry_def origin_entry_def payload_text_def
        origin_tiff_payload)

lemma origin_tiff_selected:
  assumes "length payload < 4294967296"
  shows "selected_text self (encode little (origin_tiff 7 payload))
           = (if looks_like_origin (decode_text payload) then Some (decode_text payload) else None)"
proof -
  have "(7::nat) < 65536" by simp
  from origin_tiff_exif_directory [OF this assms, of self little] show ?thesis
    by (simp add: selected_text_def origin_tiff_candidates)
qed

lemma extract_one_file:
  "extract_astronomical_metadata (one_file name data) (init_reader name)
     = (case selected_text (init_reader name) data of
          None \<Rightarrow> Inr None
        | Some s \<Rightarrow>
            (case json_loads s of
               Inl e \<Rightarrow> Inr None
             | Inr obj \<Rightarrow> Inr (Some obj)))"
  by (simp add: extract_eq one_file_def init_reader_def)

lemma one_file_filename:
  "one_file name data (filename (init_reader name)) = Some data"
  by (simp add: one_file_def init_reader_def)

lemma m42_length: "length m42_payload < 4294967296"
  by (simp add: m42_payload_def)

lemma m42_text: "decode_text m42_payload = ''{\"StackedInfo\":{\"objectName\":\"M42\"}}''"
  by (simp add: decode_text_def decode_loop_eq m42_payload_def printable_def is_null_def)

lemma m42_looks: "looks_like_origin ''{\"StackedInfo\":{\"objectName\":\"M42\"}}''"
  by (simp add: looks_like_origin_def)

lemma m42_loads: "json_loads ''{\"StackedInfo\":{\"objectName\":\"M42\"}}'' = Inr m42_document"
  unfolding m42_document_def py_str_def by code_simp

lemma m42_path:
  "json_path m42_document [''StackedInfo'', ''objectName''] = Some (JString (py_str ''M42''))"
  by (simp add: m42_document_def)

lemma malformed_length: "length malformed_payload < 4294967296"
  by (simp add: malformed_payload_def)

lemma malformed_text: "decode_text malformed_payload = ''StackedInfo{not valid json''"
  by (simp add: malformed_payload_def decode_text_def decode_loop_eq printable_def is_null_def)

lemma malformed_looks: "looks_like_origin ''StackedInfo{not valid json''"
  by (simp add: looks_like_origin_def)

lemma malformed_loads: "json_loads ''StackedInfo{not valid json'' = Inl JSONDecodeError"
  by code_simp

lemma string_length: "length string_payload < 4294967296"
  by (simp add: string_payload_def)

lemma string_text: "decode_text string_payload = ''\"StackedInfo{\"''"
  by (simp add: string_payload_def decode_text_def decode_loop_eq printable_def is_null_def)

lemma string_looks: "looks_like_origin ''\"StackedInfo{\"''"
  by (simp add: looks_like_origin_def)

lemma string_loads: "json_loads ''\"StackedInfo{\"'' = Inr (JString (py_str ''StackedInfo{''))"
  unfolding py_str_def by code_simp

subsection \<open>A payload that is not JSON\<close>

text \<open>
  C1, as the code has it. For every file whose EXIF directory has a tag-37500 entry of
  type UNDEFINED whose text passes the test for Origin JSON (the first such text is the one
  the reader takes), and whose text \<^verbatim>\<open>json.loads\<close> rejects, the extraction returns \<^verbatim>\<open>None\<close>:
  the \<^verbatim>\<open>JSONDecodeError\<close> is caught by the \<^verbatim>\<open>except\<close> clause, and the caller sees the
  result of a file without the tag.
\<close>

theorem C1_malformed_payload_returns_None:
  assumes "fs (filename self) = Some data"
    and "exif_directory self data = Some exif"
    and "find looks_like_origin (origin_candidates data exif) = Some s"
    and "json_loads s = Inl JSONDecodeError"
  shows "extract_astronomical_metadata fs self = Inr None"
  by (simp add: extract_eq selected_text_def assms)

text \<open>
  C1 as stated wants an error that differs from \<^verbatim>\<open>None\<close>. The file of the specification's
  own test, a TIFF whose tag 37500 holds \<^verbatim>\<open>b'StackedInfo{not valid json'\<close>: the text passes
  the test, \<^verbatim>\<open>json.loads\<close> rejects it, and the extraction returns \<^verbatim>\<open>None\<close>.
\<close>

theorem C1_malformed_payload_counterexample:
  "looks_like_origin (decode_text malformed_payload)
   \<and> json_loads (decode_text malformed_payload) = Inl JSONDecodeError
   \<and> extract_astronomical_metadata
        (one_file ''m.tif'' (encode True (origin_tiff 7 malformed_payload)))
        (init_reader ''m.tif'') = Inr None"
  by (simp add: extract_one_file origin_tiff_selected malformed_length malformed_text
        malformed_looks malformed_loads)

text \<open>The theorem of C1 at the big-endian encoding of the same file.\<close>

theorem C1_malformed_payload_witness:
  "exif_directory (init_reader ''m.tif'') (encode False (origin_tiff 7 malformed_payload))
     = Some [origin_entry 7 (length malformed_payload) 44]
   \<and> find looks_like_origin
        (origin_candidates (encode False (origin_tiff 7 malformed_payload))
           [origin_entry 7 (length malformed_payload) 44]) = Some ''StackedInfo{not valid json''
   \<and> json_loads ''StackedInfo{not valid json'' = Inl JSONDecodeError
   \<and> extract_astronomical_metadata
        (one_file ''m.tif'' (encode False (origin_tiff 7 malformed_payload)))
        (init_reader ''m.tif'') = Inr None"
proof -
  let ?data = "encode False (origin_tiff 7 malformed_payload)"
  let ?exif = "[origin_entry 7 (length malformed_payload) 44]"
  note h1 = one_file_filename [of "''m.tif''" ?data]
  have h2: "exif_directory (init_reader ''m.tif'') ?data = Some ?exif"
    by (rule origin_tiff_exif_directory [OF _ malformed_length]) simp
  have h3: "find looks_like_origin (origin_candidates ?data ?exif)
              = Some ''StackedInfo{not valid json''"
    by (simp add: origin_tiff_candidates malformed_text malformed_looks)
  note h4 = malformed_loads
  from C1_malformed_payload_returns_None
         [where fs = "one_file ''m.tif'' ?data" and self = "init_reader ''m.tif''",
          OF h1 h2 h3 h4] h2 h3 h4
  show ?thesis by simp
qed

subsection \<open>Directories with too many entries\<close>

text \<open>
  C2, as the code has it. For every file with a valid header whose root directory
  announces more than 1000 entries, or whose root directory is accepted and points at an
  EXIF directory that announces more than 100 entries, the extraction returns \<^verbatim>\<open>None\<close>,
  the result of a file without metadata; no exception reaches the caller.
\<close>

theorem C2_oversized_directory_returns_None:
  assumes "fs (filename self) = Some data"
    and "header_ok self data"
    and "dir_count (with_order self data) data (first_ifd self data) > 1000
         \<or> (exif_pointer (with_order self data) data (first_ifd self data) = Some exif_offset
            \<and> dir_count (with_order self data) data exif_offset > 100)"
  shows "extract_astronomical_metadata fs self = Inr None"
  using assms by (auto simp: extract_eq selected_text_def exif_directory_def)

lemma root_1001_header:
  "header_ok (init_reader ''r.tif'') root_1001_file
   \<and> with_order (init_reader ''r.tif'') root_1001_file = init_reader ''r.tif''
   \<and> first_ifd (init_reader ''r.tif'') root_1001_file = 8
   \<and> dir_count (init_reader ''r.tif'') root_1001_file 8 = 1001"
  by code_simp

lemma exif_101_pointer:
  "exif_pointer (init_reader ''e.tif'') exif_101_file 8 = Some 26"
  by (simp add: exif_pointer_def directory_def exif_101_file_def read_entry_def read_uint16_def
        read_uint32_def f_read_def at_def struct_unpack_def init_reader_def is_exif_pointer_def
        Let_def)

lemma exif_101_header:
  "header_ok (init_reader ''e.tif'') exif_101_file
   \<and> with_order (init_reader ''e.tif'') exif_101_file = init_reader ''e.tif''
   \<and> first_ifd (init_reader ''e.tif'') exif_101_file = 8
   \<and> exif_pointer (init_reader ''e.tif'') exif_101_file 8 = Some 26
   \<and> dir_count (init_reader ''e.tif'') exif_101_file 26 = 101"
proof -
  have "header_ok (init_reader ''e.tif'') exif_101_file
        \<and> with_order (init_reader ''e.tif'') exif_101_file = init_reader ''e.tif''
        \<and> first_ifd (init_reader ''e.tif'') exif_101_file = 8"
    by code_simp
  moreover have "dir_count (init_reader ''e.tif'') exif_101_file 26 = 101"
    by code_simp
  ultimately show ?thesis using exif_101_pointer by simp
qed

text \<open>
  C2 as stated wants the error \<^verbatim>\<open>CorruptDirectory\<close> in place of the absent result. The
  first file has a header and, at offset 8, the count 1001 (\<^verbatim>\<open>E9 03\<close>); the second has a
  root directory whose entry 34665 points at offset 26, where the count is 101 (\<^verbatim>\<open>65 00\<close>).
  For both the extraction returns \<^verbatim>\<open>None\<close>.
\<close>

theorem C2_oversized_directory_counterexample:
  "dir_count (init_reader ''r.tif'') root_1001_file 8 = 1001
   \<and> extract_astronomical_metadata (one_file ''r.tif'' root_1001_file) (init_reader ''r.tif'')
       = Inr None
   \<and> dir_count (init_reader ''e.tif'') exif_101_file 26 = 101
   \<and> extract_astronomical_metadata (one_file ''e.tif'' exif_101_file) (init_reader ''e.tif'')
       = Inr None"
  using root_1001_header exif_101_header
  by (simp add: extract_one_file selected_text_def exif_directory_def)

text \<open>The theorem of C2 at these two files, one for each alternative of its hypothesis.\<close>

theorem C2_oversized_directory_witness:
  "header_ok (init_reader ''r.tif'') root_1001_file
   \<and> dir_count (with_order (init_reader ''r.tif'') root_1001_file) root_1001_file
        (first_ifd (init_reader ''r.tif'') root_1001_file) > 1000
   \<and> extract_astronomical_metadata (one_file ''r.tif'' root_1001_file) (init_reader ''r.tif'')
       = Inr None
   \<and> header_ok (init_reader ''e.tif'') exif_101_file
   \<and> exif_pointer (with_order (init_reader ''e.tif'') exif_101_file) exif_101_file
        (first_ifd (init_reader ''e.tif'') exif_101_file) = Some 26
   \<and> dir_count (with_order (init_reader ''e.tif'') exif_101_file) exif_101_file 26 > 100
   \<and> extract_astronomical_metadata (one_file ''e.tif'' exif_101_file) (init_reader ''e.tif'')
       = Inr None"
proof -
  note r = root_1001_header and e = exif_101_header
  from r have r2: "header_ok (init_reader ''r.tif'') root_1001_file" by simp
  from r have r3: "dir_count (with_order (init_reader ''r.tif'') root_1001_file) root_1001_file
        (first_ifd (init_reader ''r.tif'') root_1001_file) > 1000 \<or>
      (exif_pointer (with_order (init_reader ''r.tif'') root_1001_file) root_1001_file
        (first_ifd (init_reader ''r.tif'') root_1001_file) = Some 0
       \<and> dir_count (with_order (init_reader ''r.tif'') root_1001_file) root_1001_file 0 > 100)"
    by simp
  from e have e2: "header_ok (init_reader ''e.tif'') exif_101_file" by simp
  from e have e3: "dir_count (with_order (init_reader ''e.tif'') exif_101_file) exif_101_file
        (first_ifd (init_reader ''e.tif'') exif_101_file) > 1000 \<or>
      (exif_pointer (with_order (init_reader ''e.tif'') exif_101_file) exif_101_file
        (first_ifd (init_reader ''e.tif'') exif_101_file) = Some 26
       \<and> dir_count (with_order (init_reader ''e.tif'') exif_101_file) exif_101_file 26 > 100)"
    by simp
  from C2_oversized_directory_returns_None
         [where fs = "one_file ''r.tif'' root_1001_file" and self = "init_reader ''r.tif''",
          OF one_file_filename r2 r3]
       C2_oversized_directory_returns_None
         [where fs = "one_file ''e.tif'' exif_101_file" and self = "init_reader ''e.tif''",
          OF one_file_filename e2 e3]
       r e
  show ?thesis by simp
qed

subsection \<open>The round trip of the specification's test payload\<close>

lemma filter_single:
  assumes "distinct (map f xs)" and "e \<in> set xs" and "P e" and "\<And>x. P x \<Longrightarrow> f x = f e"
  shows "filter P xs = [e]"
  using assms(1,2)
proof (induction xs)
  case Nil
  then show ?case by simp
next
  case (Cons x xs)
  show ?case
  proof (cases "x = e")
    case True
    from Cons.prems(1) True have "f e \<notin> f ` set xs" by simp
    with assms(4) have "\<forall>y \<in> set xs. \<not> P y" by (metis imageI)
    then have "filter P xs = []" by (simp add: filter_empty_conv)
    with True assms(3) show ?thesis by simp
  next
    case False
    with Cons.prems(2) have e: "e \<in> set xs" by simp
    from Cons.prems(1) have "f x \<notin> f ` set xs" by simp
    with e have "f x \<noteq> f e" by (metis imageI)
    with assms(4) have "\<not> P x" by blast
    moreover from Cons.IH Cons.prems(1) e have "filter P xs = [e]" by simp
    ultimately show ?thesis by simp
  qed
qed

text \<open>
  C3. A well-formed TIFF here is a file whose header, root directory and EXIF directory
  the reader accepts (\<open>exif_directory\<close>) and whose EXIF directory holds every tag once, as
  TIFF requires of a directory. When an entry of that directory has tag 37500 and type 7
  and the bytes it points at are \<^verbatim>\<open>b'{"StackedInfo":{"objectName":"M42"}}\x00'\<close>, the extraction
  returns the decoded document, and \<^verbatim>\<open>json["StackedInfo"]["objectName"]\<close> is \<^verbatim>\<open>"M42"\<close>.
\<close>

theorem C3_round_trip_M42:
  assumes "fs (filename self) = Some data"
    and "exif_directory self data = Some exif"
    and "distinct (map e_tag exif)"
    and "e \<in> set exif" and "e_tag e = 37500" and "e_type e = 7"
    and "take (e_count e) (drop (e_value e) data) = m42_payload"
  shows "extract_astronomical_metadata fs self = Inr (Some m42_document)
         \<and> json_path m42_document [''StackedInfo'', ''objectName''] = Some (JString (py_str ''M42''))"
proof -
  have "filter is_origin_entry exif = [e]"
  proof (rule filter_single [where f = e_tag])
    show "distinct (map e_tag exif)" by fact
    show "e \<in> set exif" by fact
    show "is_origin_entry e" using assms(5,6) by (simp add: is_origin_entry_def)
    show "e_tag x = e_tag e" if "is_origin_entry x" for x
      using that assms(5) by (simp add: is_origin_entry_def)
  qed
  then have "origin_candidates data exif = [''{\"StackedInfo\":{\"objectName\":\"M42\"}}'']"
    by (simp add: origin_candidates_def payload_text_def assms(7) m42_text)
  then have "selected_text self data = Some ''{\"StackedInfo\":{\"objectName\":\"M42\"}}''"
    by (simp add: selected_text_def assms(2) m42_looks)
  then have "extract_astronomical_metadata fs self = Inr (Some m42_document)"
    by (simp add: extract_eq assms(1) m42_loads)
  with m42_path show ?thesis by (rule conjI [rotated])
qed

text \<open>The theorem of C3 at the little-endian file \<open>origin_tiff 7 m42_payload\<close>.\<close>

theorem C3_round_trip_M42_witness:
  "exif_directory (init_reader ''m42.tif'') (encode True (origin_tiff 7 m42_payload))
     = Some [origin_entry 7 (length m42_payload) 44]
   \<and> distinct (map e_tag [origin_entry 7 (length m42_payload) 44])
   \<and> e_tag (origin_entry 7 (length m42_payload) 44) = 37500
   \<and> e_type (origin_entry 7 (length m42_payload) 44) = 7
   \<and> take (e_count (origin_entry 7 (length m42_payload) 44))
        (drop (e_value (origin_entry 7 (length m42_payload) 44))
           (encode True (origin_tiff 7 m42_payload))) = m42_payload
   \<and> extract_astronomical_metadata
        (one_file ''m42.tif'' (encode True (origin_tiff 7 m42_payload)))
        (init_reader ''m42.tif'') = Inr (Some m42_document)
   \<and> json_path m42_document [''StackedInfo'', ''objectName''] = Some (JString (py_str ''M42''))"
proof -
  let ?data = "encode True (origin_tiff 7 m42_payload)"
  let ?e = "origin_entry 7 (length m42_payload) 44"
  have h2: "exif_directory (init_reader ''m42.tif'') ?data = Some [?e]"
    by (rule origin_tiff_exif_directory [OF _ m42_length]) simp
  have h3: "distinct (map e_tag [?e])" by simp
  have h4: "?e \<in> set [?e]" by simp
  have h5: "e_tag ?e = 37500" and h6: "e_type ?e = 7" by (simp_all add: origin_entry_def)
  have h7: "take (e_count ?e) (drop (e_value ?e) ?data) = m42_payload"
    by (simp add: origin_entry_def origin_tiff_payload)
  from C3_round_trip_M42
         [where fs = "one_file ''m42.tif'' ?data" and self = "init_reader ''m42.tif''",
          OF one_file_filename h2 h3 h4 h5 h6 h7] h2 h3 h5 h6 h7
  show ?thesis by blast
qed

subsection \<open>Byte-order independence\<close>

text \<open>
  C4. A logical TIFF directory structure is a well-formed \<open>tiff_structure\<close>: the fields
  fit their widths, the directory pointers point at directories, and the bytes of the
  tag-37500 entries are raw bytes. Its little-endian encoding (\<^verbatim>\<open>II\<close>) and its big-endian
  encoding (\<^verbatim>\<open>MM\<close>, every multi-byte field swapped) give the same result of the
  extraction.
\<close>

theorem C4_byte_order_independence:
  assumes "wf_structure t"
    and "fs_le (filename self) = Some (encode True t)"
    and "fs_be (filename self) = Some (encode False t)"
  shows "extract_astronomical_metadata fs_le self = extract_astronomical_metadata fs_be self"
  by (simp add: extract_eq assms(2,3) selected_text_encode [OF assms(1)])

text \<open>
  The theorem of C4 at \<open>origin_tiff 7 m42_payload\<close>, where both encodings give the
  document of the round trip.
\<close>

theorem C4_byte_order_independence_witness:
  "wf_structure (origin_tiff 7 m42_payload)
   \<and> extract_astronomical_metadata
        (one_file ''m42.tif'' (encode True (origin_tiff 7 m42_payload))) (init_reader ''m42.tif'')
       = extract_astronomical_metadata
           (one_file ''m42.tif'' (encode False (origin_tiff 7 m42_payload)))
           (init_reader ''m42.tif'')
   \<and> extract_astronomical_metadata
        (one_file ''m42.tif'' (encode False (origin_tiff 7 m42_payload))) (init_reader ''m42.tif'')
       = Inr (Some m42_document)"
proof -
  have wf: "wf_structure (origin_tiff 7 m42_payload)"
    by (rule origin_tiff_wf [OF _ m42_length]) simp
  have be: "extract_astronomical_metadata
        (one_file ''m42.tif'' (encode False (origin_tiff 7 m42_payload))) (init_reader ''m42.tif'')
       = Inr (Some m42_document)"
    by (simp add: extract_one_file origin_tiff_selected m42_length m42_text m42_looks m42_loads)
  from C4_byte_order_independence
         [where fs_le = "one_file ''m42.tif'' (encode True (origin_tiff 7 m42_payload))"
            and fs_be = "one_file ''m42.tif'' (encode False (origin_tiff 7 m42_payload))"
            and self = "init_reader ''m42.tif''",
          OF wf one_file_filename one_file_filename] wf be
  show ?thesis by simp
qed

subsection \<open>The decoded text\<close>

text \<open>
  C5, as the code has it. Decoding stops at the first zero byte only. Of the bytes before
  it, those in the printable range 0x20 to 0x7E are copied in order, and every other byte is
  left out without ending the scan.
\<close>

theorem C5_decode_drops_nonprintable:
  "decode_text data = filter printable (takeWhile (\<lambda>b. \<not> is_null b) data)"
  by (simp add: decode_text_def decode_loop_eq)

text \<open>
  C5 as stated has the decoding stop at the first byte that is zero or outside the
  printable range, which is \<open>takeWhile\<close> of the bytes that are neither. On the bytes
  \<^verbatim>\<open>b'A\x01B'\<close> that gives \<^verbatim>\<open>'A'\<close>; the code gives \<^verbatim>\<open>'AB'\<close>.
\<close>

theorem C5_nonprintable_counterexample:
  "decode_text [CHR ''A'', CHR 0x01, CHR ''B''] = ''AB''
   \<and> decode_text [CHR ''A'', CHR 0x01, CHR ''B'']
       \<noteq> takeWhile (\<lambda>b. printable b \<and> \<not> is_null b) [CHR ''A'', CHR 0x01, CHR ''B'']"
  by (simp add: decode_text_def decode_loop_eq printable_def is_null_def)

subsection \<open>The two tag searches\<close>

text \<open>
  C6, as the code has it. The search of the root directory returns the value of the
  first entry in directory order whose tag is 34665, whatever its type, and \<^verbatim>\<open>None\<close> when
  there is none (or when the offset is 0 or the count exceeds 1000). The search of the EXIF
  directory reads the bytes of every entry with tag 37500 and type 7 in directory order
  until the text of one passes the test for Origin JSON, and returns that text; entries
  before it whose text fails the test are passed over, and the result is \<^verbatim>\<open>None\<close> when no
  text passes (or when the count exceeds 100).
\<close>

theorem C6_tag_searches_first_match:
  "fst (scan_ifd_for_exif self f offset)
     = (if offset = 0 \<or> dir_count self (contents f) offset > 1000 then None
        else map_option e_value (find is_exif_pointer (directory self (contents f) offset)))
   \<and> fst (scan_exif_for_origin_data self f offset)
     = (if dir_count self (contents f) offset > 100 then None
        else find looks_like_origin
               (map (payload_text (contents f))
                  (filter is_origin_entry (directory self (contents f) offset))))"
  by (simp add: scan_ifd_for_exif_eq scan_exif_for_origin_data_eq exif_pointer_def
        origin_candidates_def)

lemma two_candidates_wf: "wf_structure two_candidates"
  by (simp add: wf_structure_def two_candidates_def origin_entry_def entry_ok_def pointer_ok_def
        ifd_at_def raw_at_def)

lemma two_candidates_directory:
  "directory (init_reader ''t.tif'') (encode True two_candidates) 26
     = [origin_entry 7 4 56, origin_entry 7 17 60]
   \<and> dir_count (init_reader ''t.tif'') (encode True two_candidates) 26 = 2"
proof -
  have at: "ifd_at two_candidates 26 = Some [origin_entry 7 4 56, origin_entry 7 17 60]"
    by (simp add: ifd_at_def two_candidates_def)
  have ok: "list_all segment_ok (t_segments two_candidates)"
    using two_candidates_wf by (simp add: wf_structure_def)
  have l: "is_little_endian (init_reader ''t.tif'') = True"
    by (simp add: init_reader_def)
  from directory_encode [OF at ok l] show ?thesis by simp
qed

lemma two_candidates_texts:
  "payload_text (encode True two_candidates) (origin_entry 7 4 56) = ''junk''
   \<and> payload_text (encode True two_candidates) (origin_entry 7 17 60) = ''{\"StackedInfo\":2}''"
proof -
  have "raw_at two_candidates 56 4 = Some ''junk''"
    by (simp add: raw_at_def two_candidates_def)
  moreover have "raw_at two_candidates 60 17 = Some ''{\"StackedInfo\":2}''"
    by (simp add: raw_at_def two_candidates_def)
  ultimately show ?thesis
    by (simp add: payload_text_def origin_entry_def payload_encode decode_text_def
          decode_loop_eq printable_def is_null_def)
qed

text \<open>
  C6 as stated has only the first tag-37500 entry of type 7 used. In \<open>two_candidates\<close> the
  EXIF directory at offset 26 holds two such entries: the first points at \<^verbatim>\<open>b'junk'\<close>,
  the second at \<^verbatim>\<open>b'{"StackedInfo":2}'\<close>. The search returns the text of the second,
  and the extraction its document.
\<close>

theorem C6_second_entry_counterexample:
  "filter is_origin_entry (directory (init_reader ''t.tif'') (encode True two_candidates) 26)
     = [origin_entry 7 4 56, origin_entry 7 17 60]
   \<and> payload_text (encode True two_candidates) (origin_entry 7 4 56) = ''junk''
   \<and> payload_text (encode True two_candidates) (origin_entry 7 17 60) = ''{\"StackedInfo\":2}''
   \<and> fst (scan_exif_for_origin_data (init_reader ''t.tif'') (at (encode True two_candidates) 0) 26)
       = Some ''{\"StackedInfo\":2}''
   \<and> extract_astronomical_metadata (one_file ''t.tif'' (encode True two_candidates))
        (init_reader ''t.tif'') = Inr (Some (JObject [(py_str ''StackedInfo'', JInt 2)]))"
proof -
  note d = two_candidates_directory and t = two_candidates_texts
  have looks: "\<not> looks_like_origin ''junk''" "looks_like_origin ''{\"StackedInfo\":2}''"
    by (simp_all add: looks_like_origin_def)
  have loads: "json_loads ''{\"StackedInfo\":2}'' = Inr (JObject [(py_str ''StackedInfo'', JInt 2)])"
    unfolding py_str_def by code_simp
  have is_origin: "is_origin_entry (origin_entry 7 n p)" for n p
    by (simp add: is_origin_entry_def origin_entry_def)
  then have f: "filter is_origin_entry [origin_entry 7 4 56, origin_entry 7 17 60]
             = [origin_entry 7 4 56, origin_entry 7 17 60]"
    by simp
  have cands: "origin_candidates (encode True two_candidates)
                 [origin_entry 7 4 56, origin_entry 7 17 60] = [''junk'', ''{\"StackedInfo\":2}'']"
    by (simp add: origin_candidates_def is_origin t)
  have scan: "fst (scan_exif_for_origin_data (init_reader ''t.tif'')
                 (at (encode True two_candidates) 0) 26) = Some ''{\"StackedInfo\":2}''"
    by (simp add: scan_exif_for_origin_data_eq at_def d cands looks)
  have "logical_exif two_candidates = Some [origin_entry 7 4 56, origin_entry 7 17 60]"
    by (simp add: logical_exif_def two_candidates_def ifd_at_def is_exif_pointer_def)
  then have "exif_directory (init_reader ''t.tif'') (encode True two_candidates)
               = Some [origin_entry 7 4 56, origin_entry 7 17 60]"
    by (simp add: exif_directory_encode [OF two_candidates_wf])
  then have "selected_text (init_reader ''t.tif'') (encode True two_candidates)
               = Some ''{\"StackedInfo\":2}''"
    by (simp add: selected_text_def cands looks)
  then have "extract_astronomical_metadata (one_file ''t.tif'' (encode True two_candidates))
        (init_reader ''t.tif'') = Inr (Some (JObject [(py_str ''StackedInfo'', JInt 2)]))"
    by (simp add: extract_one_file loads)
  with d f t scan show ?thesis by simp
qed

subsection \<open>A directory without the tag\<close>

text \<open>
  C7. For every file with a valid header and an EXIF directory that the reader accepts,
  in which no entry has both tag 37500 and type 7, the extraction returns \<^verbatim>\<open>None\<close>. An
  entry with tag 37500 and another type is passed over like any other entry.
\<close>

theorem C7_no_origin_entry_returns_None:
  assumes "fs (filename self) = Some data"
    and "exif_directory self data = Some exif"
    and "\<forall>e \<in> set exif. \<not> (e_tag e = 37500 \<and> e_type e = 7)"
  shows "extract_astronomical_metadata fs self = Inr None"
proof -
  from assms(3) have "filter is_origin_entry exif = []"
    by (simp add: filter_empty_conv is_origin_entry_def)
  then show ?thesis
    by (simp add: extract_eq assms(1,2) selected_text_def origin_candidates_def)
qed

text \<open>
  The theorem of C7 at a file whose EXIF directory holds tag 37500 with type 2 (ASCII),
  pointing at the payload of the round trip.
\<close>

theorem C7_no_origin_entry_witness:
  "exif_directory (init_reader ''a.tif'') (encode True (origin_tiff 2 m42_payload))
     = Some [origin_entry 2 (length m42_payload) 44]
   \<and> \<not> is_origin_entry (origin_entry 2 (length m42_payload) 44)
   \<and> extract_astronomical_metadata
        (one_file ''a.tif'' (encode True (origin_tiff 2 m42_payload))) (init_reader ''a.tif'')
       = Inr None"
proof -
  let ?data = "encode True (origin_tiff 2 m42_payload)"
  have h2: "exif_directory (init_reader ''a.tif'') ?data
              = Some [origin_entry 2 (length m42_payload) 44]"
    by (rule origin_tiff_exif_directory [OF _ m42_length]) simp
  have h3: "\<forall>e \<in> set [origin_entry 2 (length m42_payload) 44]. \<not> (e_tag e = 37500 \<and> e_type e = 7)"
    by (simp add: origin_entry_def)
  from C7_no_origin_entry_returns_None
         [where fs = "one_file ''a.tif'' ?data" and self = "init_reader ''a.tif''",
          OF one_file_filename h2 h3] h2 h3
  show ?thesis by (simp add: is_origin_entry_def)
qed

subsection \<open>Files shorter than the header\<close>

lemma pos_f_read:
  "pos f \<le> length (contents f) \<Longrightarrow> pos (snd (f_read n f)) \<le> length (contents f)"
  by (simp add: f_read_def Let_def)

lemma snd_read_uint16: "snd (read_uint16 self f) = snd (f_read 2 f)"
  by (simp add: read_uint16_def split_beta)

lemma snd_read_uint32: "snd (read_uint32 self f) = snd (f_read 4 f)"
  by (simp add: read_uint32_def split_beta)

lemma short_first_ifd:
  assumes "length data < 8"
  shows "fst (read_uint32 self (at data 4)) = 0"
  using assms by (auto simp add: read_uint32_def f_read_def at_def Let_def)

lemma short_extract_body:
  assumes "length data < 8"
  shows "pos (snd (extract_body self (at data 0))) \<le> length data"
proof -
  define f1 where "f1 = snd (f_read 2 (at data 0))"
  define r where "r = self\<lparr>is_little_endian := (fst (f_read 2 (at data 0)) = ''II'')\<rparr>"
  define f2 where "f2 = snd (read_uint16 r f1)"
  define f3 where "f3 = snd (read_uint32 r f2)"
  have c: "contents f1 = data" "contents f2 = data" "contents f3 = data"
    by (simp_all add: f1_def f2_def f3_def at_def)
  have p1: "pos f1 \<le> length data"
    using pos_f_read [of "at data 0" 2] by (simp add: f1_def at_def)
  have p2: "pos f2 \<le> length data"
    using pos_f_read [of f1 2] p1 c by (simp add: f2_def snd_read_uint16)
  have p3: "pos f3 \<le> length data"
    using pos_f_read [of f2 4] p2 c by (simp add: f3_def snd_read_uint32)
  have zero: "fst (read_uint32 r f2) = 0" if "fst (read_uint16 r f1) = 42"
  proof -
    have "pos f1 + 2 = pos f2 \<or> fst (read_uint16 r f1) = 0"
      by (auto simp: f2_def read_uint16_def f_read_def Let_def)
    with that have "pos f2 = pos f1 + 2" by simp
    moreover have "pos f1 \<le> 2" by (simp add: f1_def f_read_def at_def Let_def)
    ultimately have "length data < pos f2 + 4 \<or> pos f1 < 2" using assms by arith
    moreover have "pos f1 < 2 \<Longrightarrow> fst (read_uint16 r f1) = 0"
      using c(1) by (auto simp: f1_def read_uint16_def f_read_def at_def Let_def)
    ultimately have "length data < pos f2 + 4" using that by auto
    with c(2) show ?thesis
      by (auto simp add: read_uint32_def f_read_def Let_def)
  qed
  have "snd (extract_body self (at data 0)) = f1
        \<or> snd (extract_body self (at data 0)) = f2
        \<or> snd (extract_body self (at data 0)) = f3"
    using zero
    by (auto simp: extract_body_def split_beta Let_def f1_def [symmetric] r_def [symmetric]
          f2_def [symmetric] f3_def [symmetric] scan_ifd_for_exif_def)
  with p1 p2 p3 show ?thesis by auto
qed

text \<open>
  C8, as the code has it. For every file shorter than 8 bytes the extraction returns
  \<^verbatim>\<open>None\<close>, the result of a file without metadata, and raises nothing. It reads through
  \<^verbatim>\<open>f.read\<close> only, which returns the bytes that exist, and the cursor it leaves behind is
  not past the end of the file.
\<close>

theorem C8_short_file_returns_None:
  assumes "fs (filename self) = Some data" and "length data < 8"
  shows "extract_astronomical_metadata fs self = Inr None
         \<and> pos (snd (extract_body self \<lparr>contents = data, pos = 0\<rparr>)) \<le> length data"
proof -
  have "exif_directory self data = None"
    using short_first_ifd [OF assms(2)] by (simp add: exif_directory_def first_ifd_def)
  then have "extract_astronomical_metadata fs self = Inr None"
    by (simp add: extract_eq assms(1) selected_text_def)
  with short_extract_body [OF assms(2), of self] show ?thesis
    by (simp add: at_def)
qed

text \<open>
  C8 as stated wants \<^verbatim>\<open>Err(NotATiff)\<close> or \<^verbatim>\<open>Err(Io)\<close>. For the empty file, and for a file
  that ends inside the offset field of the header, the extraction returns \<^verbatim>\<open>None\<close>, as it
  does for a TIFF without metadata.
\<close>

theorem C8_short_file_counterexample:
  "extract_astronomical_metadata (one_file ''x.tif'' []) (init_reader ''x.tif'') = Inr None
   \<and> extract_astronomical_metadata (one_file ''x.tif'' truncated_file) (init_reader ''x.tif'')
       = Inr None"
  by code_simp

text \<open>The theorem of C8 at the file that ends inside the offset field.\<close>

theorem C8_short_file_witness:
  "length truncated_file < 8
   \<and> extract_astronomical_metadata (one_file ''x.tif'' truncated_file) (init_reader ''x.tif'')
       = Inr None
   \<and> pos (snd (extract_body (init_reader ''x.tif'') \<lparr>contents = truncated_file, pos = 0\<rparr>))
       \<le> length truncated_file"
proof -
  have h2: "length truncated_file < 8" by (simp add: truncated_file_def)
  from C8_short_file_returns_None
         [where fs = "one_file ''x.tif'' truncated_file" and self = "init_reader ''x.tif''",
          OF one_file_filename h2] h2
  show ?thesis by simp
qed

subsection \<open>The payload read\<close>

text \<open>
  C9, as the code has it. The payload read returns the bytes of the file in
  \<open>[offset, offset + count)\<close>: \<open>count\<close> bytes when the range lies in the file, and only
  those that exist when the file ends before \<open>offset + count\<close>. In both cases the file
  object is afterwards what it was before the call, cursor included.
\<close>

theorem C9_payload_read_restores_cursor:
  "snd (read_data_at_offset self f offset count) = f
   \<and> fst (read_data_at_offset self f offset count) = take count (drop offset (contents f))
   \<and> length (fst (read_data_at_offset self f offset count))
       = min count (length (contents f) - offset)"
  by (simp add: read_data_at_offset_eq)

text \<open>
  C9 as stated asks for exactly \<open>count\<close> bytes on every read. On the three-byte file
  \<^verbatim>\<open>b'abc'\<close> a read of 5 bytes at offset 1 returns the two bytes \<^verbatim>\<open>b'bc'\<close>.
\<close>

theorem C9_short_read_counterexample:
  "fst (read_data_at_offset (init_reader ''x.tif'') \<lparr>contents = ''abc'', pos = 0\<rparr> 1 5) = ''bc''
   \<and> length (fst (read_data_at_offset (init_reader ''x.tif'')
        \<lparr>contents = ''abc'', pos = 0\<rparr> 1 5)) \<noteq> 5"
  by (simp add: read_data_at_offset_eq)

subsection \<open>What the extraction returns\<close>

text \<open>
  In this model the extraction returns for every file system and every reader: the two
  exceptions the body can raise, \<^verbatim>\<open>IOError\<close> from \<^verbatim>\<open>open\<close> and \<^verbatim>\<open>JSONDecodeError\<close> from
  \<^verbatim>\<open>json.loads\<close>, are both named by the \<^verbatim>\<open>except\<close> clause.
\<close>

lemma extract_returns: "\<exists>result. extract_astronomical_metadata fs self = Inr result"
  by (simp add: extract_eq split: option.splits sum.splits)

text \<open>
  C10 says that what it returns is a dictionary or \<^verbatim>\<open>None\<close>, as the annotation
  \<^verbatim>\<open>Optional[Dict[str, Any]]\<close> of the method does. The payload \<^verbatim>\<open>b'"StackedInfo{"'\<close>, with
  its quotation marks, passes the test for Origin JSON and is a JSON string, and for the
  file \<open>origin_tiff 7 string_payload\<close> the extraction returns the Python string
  \<^verbatim>\<open>'StackedInfo{'\<close>.
\<close>

theorem C10_returns_a_string:
  "extract_astronomical_metadata
     (one_file ''s.tif'' (encode True (origin_tiff 7 string_payload))) (init_reader ''s.tif'')
     = Inr (Some (JString (py_str ''StackedInfo{'')))"
  by (simp add: extract_one_file origin_tiff_selected string_length string_text string_looks
        string_loads)

end
